theory Spec2Isabelle
  imports Main "HOL-Library.Word" "HOL-Library.Signed_Division"
begin

unbundle bit_operations_syntax

section \<open>Data model (musashi.go)\<close>

text \<open>
  Fixed-width Go integers are words. Go's \<open>int\<close> is modelled in two ways: the cycle
  counters \<open>cyclesRun\<close> and \<open>cyclesRemain\<close>, which are accumulated, are 64-bit words read
  as two's complement (Go's \<open>int\<close> on a 64-bit target); \<open>int\<close> parameters that are only
  compared with constants (sizes, modes, register numbers, condition codes) are HOL
  integers, and every conversion of one to a fixed width is written out.
\<close>

type_synonym u8 = "8 word"
type_synonym u16 = "16 word"
type_synonym u32 = "32 word"
type_synonym gint = "64 word"

text \<open>Run-time panics of the Go program are values.\<close>

datatype error = NilPointer | IndexOutOfRange

definition bindE :: "error + 'x \<Rightarrow> ('x \<Rightarrow> error + 'y) \<Rightarrow> error + 'y" where
  "bindE m f = (case m of Inl e \<Rightarrow> Inl e | Inr x \<Rightarrow> f x)"

text \<open>
  An array \<open>[8]T\<close> is a function from the eight indices. Indexing with a Go \<open>int\<close>
  outside \<open>0..7\<close> panics.
\<close>

type_synonym 'x arr8 = "3 word \<Rightarrow> 'x"

definition idx8 :: "int \<Rightarrow> error + 3 word" where
  "idx8 i = (if 0 \<le> i \<and> i < 8 then Inr (word_of_int i) else Inl IndexOutOfRange)"

text \<open>
  \<open>MemoryHandler\<close> is an interface implemented by the host. A handler is modelled as an
  object: its state \<open>self\<close> with its six methods. Following the signatures of the
  interface, reads are total and return a value, writes are total and change only the
  object.
\<close>

record 'm MemoryHandler =
  self :: 'm
  Read8 :: "'m \<Rightarrow> u32 \<Rightarrow> u8"
  Read16 :: "'m \<Rightarrow> u32 \<Rightarrow> u16"
  Read32 :: "'m \<Rightarrow> u32 \<Rightarrow> u32"
  Write8 :: "'m \<Rightarrow> u32 \<Rightarrow> u8 \<Rightarrow> 'm"
  Write16 :: "'m \<Rightarrow> u32 \<Rightarrow> u16 \<Rightarrow> 'm"
  Write32 :: "'m \<Rightarrow> u32 \<Rightarrow> u32 \<Rightarrow> 'm"

definition mRead8 :: "'m MemoryHandler \<Rightarrow> u32 \<Rightarrow> u8" where
  "mRead8 h address = Read8 h (self h) address"

definition mRead16 :: "'m MemoryHandler \<Rightarrow> u32 \<Rightarrow> u16" where
  "mRead16 h address = Read16 h (self h) address"

definition mRead32 :: "'m MemoryHandler \<Rightarrow> u32 \<Rightarrow> u32" where
  "mRead32 h address = Read32 h (self h) address"

definition mWrite8 :: "'m MemoryHandler \<Rightarrow> u32 \<Rightarrow> u8 \<Rightarrow> 'm MemoryHandler" where
  "mWrite8 h address v = h\<lparr>self := Write8 h (self h) address v\<rparr>"

definition mWrite16 :: "'m MemoryHandler \<Rightarrow> u32 \<Rightarrow> u16 \<Rightarrow> 'm MemoryHandler" where
  "mWrite16 h address v = h\<lparr>self := Write16 h (self h) address v\<rparr>"

definition mWrite32 :: "'m MemoryHandler \<Rightarrow> u32 \<Rightarrow> u32 \<Rightarrow> 'm MemoryHandler" where
  "mWrite32 h address v = h\<lparr>self := Write32 h (self h) address v\<rparr>"

text \<open>\<open>CPUType\<close> is an \<open>int\<close> with named values; the code compares it with \<open>>=\<close>.\<close>

type_synonym CPUType = int

definition CPUInvalid :: CPUType where "CPUInvalid = 0"
definition CPU68000 :: CPUType where "CPU68000 = 1"
definition CPU68010 :: CPUType where "CPU68010 = 2"
definition CPU68EC020 :: CPUType where "CPU68EC020 = 3"
definition CPU68020 :: CPUType where "CPU68020 = 4"
definition CPU68EC030 :: CPUType where "CPU68EC030 = 5"
definition CPU68030 :: CPUType where "CPU68030 = 6"
definition CPU68EC040 :: CPUType where "CPU68EC040 = 7"
definition CPU68LC040 :: CPUType where "CPU68LC040 = 8"
definition CPU68040 :: CPUType where "CPU68040 = 9"
definition CPUSCC68070 :: CPUType where "CPUSCC68070 = 10"

definition IntAckAutovector :: u32 where "IntAckAutovector = 0xFFFFFFFF"
definition IntAckSpurious :: u32 where "IntAckSpurious = 0xFFFFFFFE"

text \<open>
  The \<open>Context\<close> struct (a saved CPU context). Its fields have the names of the \<open>CPU\<close>
  fields they save, so they are written with the record's name: \<open>Context.pc\<close>.
\<close>

record Context =
  cpuType :: CPUType
  d :: "u32 arr8"
  a :: "u32 arr8"
  pc :: u32
  sr :: u16
  usp :: u32
  isp :: u32
  msp :: u32
  sfc :: u8
  dfc :: u8
  vbr :: u32
  cacr :: u32
  caar :: u32

text \<open>
  The \<open>CPU\<close> struct. A callback slot is \<open>None\<close> for \<open>nil\<close>. A registered callback is
  host code, of which the model keeps the Go signature as a function: the value it returns
  is modelled; what it does to the host, or to the CPU by calling back into it
  (\<open>ModifyTimeslice\<close>, \<open>EndTimeslice\<close>, \<open>SetIRQ\<close>), is not. Statements about the execution
  loop are therefore made for CPUs that have no callback registered.
\<close>

record 'm CPU =
  cpuType :: CPUType
  d :: "u32 arr8"
  a :: "u32 arr8"
  pc :: u32
  sr :: u16
  usp :: u32
  isp :: u32
  msp :: u32
  sfc :: u8
  dfc :: u8
  vbr :: u32
  cacr :: u32
  caar :: u32
  stopped :: bool
  halted :: bool
  cyclesRun :: gint
  cyclesRemain :: gint
  irqLevel :: u8
  virq :: "bool arr8"
  prefetchAddr :: u32
  prefetchData :: u32
  ppc :: u32
  ir :: u16
  memory :: "'m MemoryHandler option"
  intAckCallback :: "(int \<Rightarrow> u32) option"
  resetCallback :: "(unit \<Rightarrow> unit) option"
  pcChangedCallback :: "(u32 \<Rightarrow> unit) option"
  fcCallback :: "(u8 \<Rightarrow> unit) option"
  instrHookCallback :: "(u32 \<Rightarrow> unit) option"
  bkptAckCallback :: "(u32 \<Rightarrow> unit) option"
  illegalCallback :: "(u16 \<Rightarrow> bool) option"
  tasCallback :: "(unit \<Rightarrow> int) option"

section \<open>Condition codes (flags.go)\<close>

definition FlagC :: u16 where "FlagC = 0x01"
definition FlagV :: u16 where "FlagV = 0x02"
definition FlagZ :: u16 where "FlagZ = 0x04"
definition FlagN :: u16 where "FlagN = 0x08"
definition FlagX :: u16 where "FlagX = 0x10"

definition CondT :: int where "CondT = 0"
definition CondF :: int where "CondF = 1"
definition CondHI :: int where "CondHI = 2"
definition CondLS :: int where "CondLS = 3"
definition CondCC :: int where "CondCC = 4"
definition CondCS :: int where "CondCS = 5"
definition CondNE :: int where "CondNE = 6"
definition CondEQ :: int where "CondEQ = 7"
definition CondVC :: int where "CondVC = 8"
definition CondVS :: int where "CondVS = 9"
definition CondPL :: int where "CondPL = 10"
definition CondMI :: int where "CondMI = 11"
definition CondGE :: int where "CondGE = 12"
definition CondLT :: int where "CondLT = 13"
definition CondGT :: int where "CondGT = 14"
definition CondLE :: int where "CondLE = 15"

text \<open>\<open>x |= m\<close> and \<open>x &^= m\<close> on the status register.\<close>

definition setBits :: "u16 \<Rightarrow> u16 \<Rightarrow> u16" where
  "setBits x m = x OR m"

definition clearBits :: "u16 \<Rightarrow> u16 \<Rightarrow> u16" where
  "clearBits x m = x AND NOT m"

text \<open>
  \<open>setFlagsLogical\<close>: the \<open>switch\<close> on \<open>size\<close> has the cases 8, 16 and 32 and no
  default, so any other size only clears V and C.
\<close>

definition setFlagsLogical :: "u32 \<Rightarrow> int \<Rightarrow> 'm CPU \<Rightarrow> 'm CPU" where
  "setFlagsLogical result sz cpu =
    (let sr1 = clearBits (sr cpu) (FlagV OR FlagC) in
     if sz = 8 then
       (let sr2 = (if result AND 0x80 \<noteq> 0 then setBits sr1 FlagN else clearBits sr1 FlagN);
            sr3 = (if result AND 0xFF = 0 then setBits sr2 FlagZ else clearBits sr2 FlagZ)
        in cpu\<lparr>sr := sr3\<rparr>)
     else if sz = 16 then
       (let sr2 = (if result AND 0x8000 \<noteq> 0 then setBits sr1 FlagN else clearBits sr1 FlagN);
            sr3 = (if result AND 0xFFFF = 0 then setBits sr2 FlagZ else clearBits sr2 FlagZ)
        in cpu\<lparr>sr := sr3\<rparr>)
     else if sz = 32 then
       (let sr2 = (if result AND 0x80000000 \<noteq> 0 then setBits sr1 FlagN else clearBits sr1 FlagN);
            sr3 = (if result = 0 then setBits sr2 FlagZ else clearBits sr2 FlagZ)
        in cpu\<lparr>sr := sr3\<rparr>)
     else cpu\<lparr>sr := sr1\<rparr>)"

text \<open>
  \<open>setFlagsAdd\<close>: the \<open>switch\<close> sets C and X from the carry and leaves \<open>sm\<close>, \<open>dm\<close>,
  \<open>rm\<close> at \<open>false\<close> for a size other than 8, 16, 32; then V is set from the three sign
  bits; the last statement calls \<open>setFlagsLogical\<close>. For size 32 the carry is read from
  the sum of the operands in 64 bits.
\<close>

definition setFlagsAdd :: "u32 \<Rightarrow> u32 \<Rightarrow> u32 \<Rightarrow> int \<Rightarrow> 'm CPU \<Rightarrow> 'm CPU" where
  "setFlagsAdd dest src result sz cpu =
    (let (sm, dm, rm, sr1) =
       (if sz = 8 then
          (src AND 0x80 \<noteq> 0, dest AND 0x80 \<noteq> 0, result AND 0x80 \<noteq> 0,
           if result AND 0x100 \<noteq> 0 then setBits (sr cpu) (FlagC OR FlagX)
           else clearBits (sr cpu) (FlagC OR FlagX))
        else if sz = 16 then
          (src AND 0x8000 \<noteq> 0, dest AND 0x8000 \<noteq> 0, result AND 0x8000 \<noteq> 0,
           if result AND 0x10000 \<noteq> 0 then setBits (sr cpu) (FlagC OR FlagX)
           else clearBits (sr cpu) (FlagC OR FlagX))
        else if sz = 32 then
          (src AND 0x80000000 \<noteq> 0, dest AND 0x80000000 \<noteq> 0, result AND 0x80000000 \<noteq> 0,
           if (ucast src :: 64 word) + ucast dest > 0xFFFFFFFF
           then setBits (sr cpu) (FlagC OR FlagX)
           else clearBits (sr cpu) (FlagC OR FlagX))
        else (False, False, False, sr cpu));
         sr2 = (if (sm \<and> dm \<and> \<not> rm) \<or> (\<not> sm \<and> \<not> dm \<and> rm)
                then setBits sr1 FlagV else clearBits sr1 FlagV)
     in setFlagsLogical result sz (cpu\<lparr>sr := sr2\<rparr>))"

text \<open>\<open>setFlagsSub\<close>: as \<open>setFlagsAdd\<close>; for size 32 the borrow is \<open>src > dest\<close>.\<close>

definition setFlagsSub :: "u32 \<Rightarrow> u32 \<Rightarrow> u32 \<Rightarrow> int \<Rightarrow> 'm CPU \<Rightarrow> 'm CPU" where
  "setFlagsSub dest src result sz cpu =
    (let (sm, dm, rm, sr1) =
       (if sz = 8 then
          (src AND 0x80 \<noteq> 0, dest AND 0x80 \<noteq> 0, result AND 0x80 \<noteq> 0,
           if result AND 0x100 \<noteq> 0 then setBits (sr cpu) (FlagC OR FlagX)
           else clearBits (sr cpu) (FlagC OR FlagX))
        else if sz = 16 then
          (src AND 0x8000 \<noteq> 0, dest AND 0x8000 \<noteq> 0, result AND 0x8000 \<noteq> 0,
           if result AND 0x10000 \<noteq> 0 then setBits (sr cpu) (FlagC OR FlagX)
           else clearBits (sr cpu) (FlagC OR FlagX))
        else if sz = 32 then
          (src AND 0x80000000 \<noteq> 0, dest AND 0x80000000 \<noteq> 0, result AND 0x80000000 \<noteq> 0,
           if src > dest then setBits (sr cpu) (FlagC OR FlagX)
           else clearBits (sr cpu) (FlagC OR FlagX))
        else (False, False, False, sr cpu));
         sr2 = (if (\<not> sm \<and> dm \<and> \<not> rm) \<or> (sm \<and> \<not> dm \<and> rm)
                then setBits sr1 FlagV else clearBits sr1 FlagV)
     in setFlagsLogical result sz (cpu\<lparr>sr := sr2\<rparr>))"

text \<open>\<open>testCondition\<close>: a condition outside \<open>0..15\<close> is false.\<close>

definition testCondition :: "int \<Rightarrow> 'm CPU \<Rightarrow> bool" where
  "testCondition cond cpu =
    (let c = (sr cpu AND FlagC \<noteq> 0);
         v = (sr cpu AND FlagV \<noteq> 0);
         z = (sr cpu AND FlagZ \<noteq> 0);
         n = (sr cpu AND FlagN \<noteq> 0)
     in if cond = CondT then True
        else if cond = CondF then False
        else if cond = CondHI then \<not> c \<and> \<not> z
        else if cond = CondLS then c \<or> z
        else if cond = CondCC then \<not> c
        else if cond = CondCS then c
        else if cond = CondNE then \<not> z
        else if cond = CondEQ then z
        else if cond = CondVC then \<not> v
        else if cond = CondVS then v
        else if cond = CondPL then \<not> n
        else if cond = CondMI then n
        else if cond = CondGE then (n \<and> v) \<or> (\<not> n \<and> \<not> v)
        else if cond = CondLT then (n \<and> \<not> v) \<or> (\<not> n \<and> v)
        else if cond = CondGT then (n \<and> v \<and> \<not> z) \<or> (\<not> n \<and> \<not> v \<and> \<not> z)
        else if cond = CondLE then z \<or> (n \<and> \<not> v) \<or> (\<not> n \<and> v)
        else False)"

definition signExtend8 :: "u32 \<Rightarrow> u32" where
  "signExtend8 v = (if v AND 0x80 \<noteq> 0 then v OR 0xFFFFFF00 else v AND 0xFF)"

definition signExtend16 :: "u32 \<Rightarrow> u32" where
  "signExtend16 v = (if v AND 0x8000 \<noteq> 0 then v OR 0xFFFF0000 else v AND 0xFFFF)"

definition maskValue :: "u32 \<Rightarrow> int \<Rightarrow> u32" where
  "maskValue v sz =
    (if sz = 8 then v AND 0xFF else if sz = 16 then v AND 0xFFFF else v)"

section \<open>The CPU core (musashi.go)\<close>

definition NewCPU :: "CPUType \<Rightarrow> 'm CPU" where
  "NewCPU t =
    \<lparr>cpuType = t, d = (\<lambda>_. 0), a = (\<lambda>_. 0), pc = 0, sr = 0, usp = 0, isp = 0, msp = 0,
     sfc = 0, dfc = 0, vbr = 0, cacr = 0, caar = 0, stopped = False, halted = False,
     cyclesRun = 0, cyclesRemain = 0, irqLevel = 0, virq = (\<lambda>_. False),
     prefetchAddr = 0, prefetchData = 0, ppc = 0, ir = 0, memory = None,
     intAckCallback = None, resetCallback = None, pcChangedCallback = None,
     fcCallback = None, instrHookCallback = None, bkptAckCallback = None,
     illegalCallback = None, tasCallback = None\<rparr>"

definition SetMemoryHandler :: "'m MemoryHandler option \<Rightarrow> 'm CPU \<Rightarrow> 'm CPU" where
  "SetMemoryHandler handler cpu = cpu\<lparr>memory := handler\<rparr>"

definition SetIntAckCallback :: "(int \<Rightarrow> u32) option \<Rightarrow> 'm CPU \<Rightarrow> 'm CPU" where
  "SetIntAckCallback callback cpu = cpu\<lparr>intAckCallback := callback\<rparr>"

definition Reset :: "'m CPU \<Rightarrow> 'm CPU" where
  "Reset cpu0 =
    (let cpu = cpu0\<lparr>d := (\<lambda>_. 0)\<rparr>;
         cpu = cpu\<lparr>a := (\<lambda>_. 0)\<rparr>;
         cpu = cpu\<lparr>sr := 0x2700\<rparr>;
         cpu = cpu\<lparr>sfc := 0, dfc := 0, vbr := 0, cacr := 0, caar := 0\<rparr>;
         cpu = cpu\<lparr>stopped := False, halted := False, cyclesRun := 0, cyclesRemain := 0,
                   irqLevel := 0\<rparr>;
         cpu = (case memory cpu of
                  Some h \<Rightarrow>
                    (let cpu = cpu\<lparr>a := (a cpu)(7 := mRead32 h 0)\<rparr>
                     in cpu\<lparr>pc := mRead32 h 4\<rparr>)
                | None \<Rightarrow>
                    (let cpu = cpu\<lparr>a := (a cpu)(7 := 0)\<rparr>
                     in cpu\<lparr>pc := 0\<rparr>));
         cpu = cpu\<lparr>usp := 0, isp := 0, msp := 0\<rparr>;
         cpu = cpu\<lparr>prefetchAddr := 0, prefetchData := 0\<rparr>;
         cpu = cpu\<lparr>ppc := pc cpu\<rparr>
     in cpu\<lparr>ir := 0\<rparr>)"

definition useCycles :: "gint \<Rightarrow> 'm CPU \<Rightarrow> 'm CPU" where
  "useCycles cycles cpu =
    (let cpu = cpu\<lparr>cyclesRun := cyclesRun cpu + cycles\<rparr>
     in cpu\<lparr>cyclesRemain := cyclesRemain cpu - cycles\<rparr>)"

definition pushWord :: "u16 \<Rightarrow> 'm CPU \<Rightarrow> 'm CPU" where
  "pushWord v cpu0 =
    (let cpu = cpu0\<lparr>a := (a cpu0)(7 := a cpu0 7 - 2)\<rparr>
     in case memory cpu of
          Some h \<Rightarrow> cpu\<lparr>memory := Some (mWrite16 h (a cpu 7) v)\<rparr>
        | None \<Rightarrow> cpu)"

definition pushLong :: "u32 \<Rightarrow> 'm CPU \<Rightarrow> 'm CPU" where
  "pushLong v cpu0 =
    (let cpu = cpu0\<lparr>a := (a cpu0)(7 := a cpu0 7 - 4)\<rparr>
     in case memory cpu of
          Some h \<Rightarrow> cpu\<lparr>memory := Some (mWrite32 h (a cpu 7) v)\<rparr>
        | None \<Rightarrow> cpu)"

text \<open>
  \<open>handleInterrupt\<close>. The vector is read through \<open>cpu.memory\<close> with no \<open>nil\<close> check:
  without a handler the call panics.
\<close>

definition handleInterrupt :: "u8 \<Rightarrow> 'm CPU \<Rightarrow> error + 'm CPU" where
  "handleInterrupt level cpu0 =
    (let vector = (case intAckCallback cpu0 of
                     Some callback \<Rightarrow> callback (uint level)
                   | None \<Rightarrow> IntAckAutovector);
         vector = (if vector = IntAckAutovector then 0x18 + ucast level
                   else if vector = IntAckSpurious then 0x18
                   else vector);
         oldSR = sr cpu0;
         cpu = cpu0\<lparr>sr := sr cpu0 OR 0x2000\<rparr>;
         cpu = cpu\<lparr>sr := (sr cpu AND 0xF8FF) OR push_bit 8 (ucast level)\<rparr>;
         cpu = pushLong (pc cpu) cpu;
         cpu = pushWord oldSR cpu;
         vectorAddr = (if cpuType cpu \<ge> CPU68010 then vbr cpu + vector * 4 else vector * 4)
     in case memory cpu of
          None \<Rightarrow> Inl NilPointer
        | Some h \<Rightarrow> Inr (useCycles 44 (cpu\<lparr>pc := mRead32 h vectorAddr\<rparr>)))"

definition checkInterrupts :: "'m CPU \<Rightarrow> error + 'm CPU" where
  "checkInterrupts cpu =
    (if irqLevel cpu = 0 then Inr cpu
     else
       (let intMask = (ucast (drop_bit 8 (sr cpu) AND 0x07) :: u8)
        in if irqLevel cpu = 7 \<or> irqLevel cpu > intMask
           then handleInterrupt (irqLevel cpu) cpu
           else Inr cpu))"

text \<open>
  \<open>executeInstruction\<close>: fetch, advance the PC, charge four cycles. The \<open>switch\<close> on the
  instruction register has a case for NOP, a case for RESET (which calls the reset
  callback when one is set) and a default; none of them changes the CPU.
\<close>

definition executeInstruction :: "'m CPU \<Rightarrow> error + 'm CPU" where
  "executeInstruction cpu0 =
    (case memory cpu0 of
       None \<Rightarrow> Inl NilPointer
     | Some h \<Rightarrow>
         (let cpu = cpu0\<lparr>ir := mRead16 h (pc cpu0)\<rparr>;
              cpu = cpu\<lparr>pc := pc cpu + 2\<rparr>;
              cpu = useCycles 4 cpu
          in if ir cpu = 0x4E71 then Inr cpu
             else if ir cpu = 0x4E70 then
               (case resetCallback cpu of
                  Some callback \<Rightarrow> (let u = callback () in Inr cpu)
                | None \<Rightarrow> Inr cpu)
             else Inr cpu))"

text \<open>One pass of the loop of \<open>Execute\<close>.\<close>

definition Execute_body :: "'m CPU \<Rightarrow> error + 'm CPU" where
  "Execute_body cpu0 =
    (case checkInterrupts cpu0 of
       Inl e \<Rightarrow> Inl e
     | Inr cpu \<Rightarrow>
         (let u = (case instrHookCallback cpu of
                     Some callback \<Rightarrow> callback (pc cpu)
                   | None \<Rightarrow> ());
              cpu = cpu\<lparr>ppc := pc cpu\<rparr>
          in executeInstruction cpu))"

definition Execute_cond :: "'m CPU \<Rightarrow> bool" where
  "Execute_cond cpu = (0 <s cyclesRemain cpu \<and> \<not> stopped cpu \<and> \<not> halted cpu)"

text \<open>
  The loop of \<open>Execute\<close> runs while \<open>cyclesRemain > 0\<close> and the CPU is neither stopped nor
  halted. Every pass charges 4 cycles, and 44 more when an interrupt is taken, so the loop
  ends: the signed value of \<open>cyclesRemain\<close> decreases (it cannot wrap, being positive
  before the pass).
\<close>

lemma sint_sub_pos:
  assumes "0 <s (r::gint)" "0 \<le> k" "k \<le> 2 ^ 62"
  shows "sint (r - word_of_int k) = sint r - k"
proof -
  have r: "0 < sint r" "sint r < 2 ^ 63"
    using assms(1) sint_lt[of r] by (simp_all add: word_sless_alt)
  have k: "sint (word_of_int k :: gint) = k"
    using assms(2,3) by (simp add: sint_sbintrunc' signed_take_bit_int_eq_self)
  have "sint (r - word_of_int k) = signed_take_bit 63 (sint r - k)"
    by (simp add: sint_word_ariths k)
  also have "\<dots> = sint r - k"
    using r assms(2,3) by (intro signed_take_bit_int_eq_self) auto
  finally show ?thesis .
qed

lemma cyclesRemain_useCycles: "cyclesRemain (useCycles n cpu) = cyclesRemain cpu - n"
  by (simp add: useCycles_def Let_def)

lemma cyclesRemain_pushLong: "cyclesRemain (pushLong v cpu) = cyclesRemain cpu"
  by (simp add: pushLong_def Let_def split: option.split)

lemma cyclesRemain_pushWord: "cyclesRemain (pushWord v cpu) = cyclesRemain cpu"
  by (simp add: pushWord_def Let_def split: option.split)

lemma handleInterrupt_remain:
  "handleInterrupt l cpu = Inr cpu' \<Longrightarrow> cyclesRemain cpu' = cyclesRemain cpu - 44"
  by (auto simp: handleInterrupt_def Let_def cyclesRemain_useCycles cyclesRemain_pushLong
      cyclesRemain_pushWord split: option.splits)

lemma checkInterrupts_remain:
  "checkInterrupts cpu = Inr cpu' \<Longrightarrow>
     cyclesRemain cpu' = cyclesRemain cpu \<or> cyclesRemain cpu' = cyclesRemain cpu - 44"
  by (auto simp: checkInterrupts_def Let_def dest: handleInterrupt_remain split: if_splits)

lemma executeInstruction_remain:
  "executeInstruction cpu = Inr cpu' \<Longrightarrow> cyclesRemain cpu' = cyclesRemain cpu - 4"
  by (auto simp: executeInstruction_def Let_def cyclesRemain_useCycles
      split: option.splits if_splits)

lemma Execute_body_remain:
  "Execute_body cpu = Inr cpu' \<Longrightarrow>
     cyclesRemain cpu' = cyclesRemain cpu - 4 \<or> cyclesRemain cpu' = cyclesRemain cpu - 48"
  by (auto simp: Execute_body_def Let_def split: sum.splits
      dest!: checkInterrupts_remain executeInstruction_remain)

function Execute_loop :: "'m CPU \<Rightarrow> error + 'm CPU" where
  "Execute_loop cpu =
    (if Execute_cond cpu then
       (case Execute_body cpu of
          Inl e \<Rightarrow> Inl e
        | Inr cpu' \<Rightarrow> Execute_loop cpu')
     else Inr cpu)"
  by pat_completeness auto
termination
proof (relation "measure (\<lambda>cpu. nat (sint (cyclesRemain cpu)))")
  show "wf (measure (\<lambda>cpu::'m CPU. nat (sint (cyclesRemain cpu))))" by simp
next
  fix cpu cpu' :: "'m CPU"
  assume c: "Execute_cond cpu" and b: "Execute_body cpu = Inr cpu'"
  from c have pos: "0 <s cyclesRemain cpu" by (simp add: Execute_cond_def)
  then have p: "0 < sint (cyclesRemain cpu)" by (simp add: word_sless_alt)
  from Execute_body_remain[OF b] have "sint (cyclesRemain cpu') < sint (cyclesRemain cpu)"
    using sint_sub_pos[OF pos, of 4] sint_sub_pos[OF pos, of 48] by auto
  with p show "(cpu', cpu) \<in> measure (\<lambda>cpu. nat (sint (cyclesRemain cpu)))" by simp
qed

declare Execute_loop.simps [simp del]

text \<open>\<open>Execute\<close> returns the cycles run, with the CPU as the loop leaves it.\<close>

definition Execute :: "gint \<Rightarrow> 'm CPU \<Rightarrow> error + (gint \<times> 'm CPU)" where
  "Execute cycles cpu0 =
    (if memory cpu0 = None then Inr (0, cpu0)
     else
       (let cpu = cpu0\<lparr>cyclesRemain := cycles\<rparr>;
            cpu = cpu\<lparr>cyclesRun := 0\<rparr>
        in case Execute_loop cpu of
             Inl e \<Rightarrow> Inl e
           | Inr cpu' \<Rightarrow> Inr (cyclesRun cpu', cpu')))"

definition SetIRQ :: "int \<Rightarrow> 'm CPU \<Rightarrow> 'm CPU" where
  "SetIRQ level cpu =
    (let level = (if level < 0 \<or> level > 7 then 0 else level)
     in cpu\<lparr>irqLevel := word_of_int level\<rparr>)"

text \<open>
  Register access. \<open>Register\<close> is an \<open>int\<close> with named values; \<open>GetRegister\<close> returns 0
  for a value that names no register.
\<close>

type_synonym Register = int

definition RegD0 :: Register where "RegD0 = 0"
definition RegD7 :: Register where "RegD7 = 7"
definition RegA0 :: Register where "RegA0 = 8"
definition RegA7 :: Register where "RegA7 = 15"
definition RegPC :: Register where "RegPC = 16"
definition RegSR :: Register where "RegSR = 17"
definition RegSP :: Register where "RegSP = 18"
definition RegUSP :: Register where "RegUSP = 19"
definition RegISP :: Register where "RegISP = 20"
definition RegMSP :: Register where "RegMSP = 21"
definition RegSFC :: Register where "RegSFC = 22"
definition RegDFC :: Register where "RegDFC = 23"
definition RegVBR :: Register where "RegVBR = 24"
definition RegCACR :: Register where "RegCACR = 25"
definition RegCAAR :: Register where "RegCAAR = 26"
definition RegPrefAddr :: Register where "RegPrefAddr = 27"
definition RegPrefData :: Register where "RegPrefData = 28"
definition RegPPC :: Register where "RegPPC = 29"
definition RegIR :: Register where "RegIR = 30"
definition RegCPUType :: Register where "RegCPUType = 31"

definition GetRegister :: "Register \<Rightarrow> 'm CPU \<Rightarrow> u32" where
  "GetRegister reg cpu =
    (if RegD0 \<le> reg \<and> reg \<le> RegD7 then d cpu (word_of_int (reg - RegD0))
     else if RegA0 \<le> reg \<and> reg \<le> RegA7 then a cpu (word_of_int (reg - RegA0))
     else if reg = RegPC then pc cpu
     else if reg = RegSR then ucast (sr cpu)
     else if reg = RegSP then (if sr cpu AND 0x2000 \<noteq> 0 then a cpu 7 else usp cpu)
     else if reg = RegUSP then usp cpu
     else if reg = RegISP then isp cpu
     else if reg = RegMSP then msp cpu
     else if reg = RegSFC then ucast (sfc cpu)
     else if reg = RegDFC then ucast (dfc cpu)
     else if reg = RegVBR then vbr cpu
     else if reg = RegCACR then cacr cpu
     else if reg = RegCAAR then caar cpu
     else if reg = RegPrefAddr then prefetchAddr cpu
     else if reg = RegPrefData then prefetchData cpu
     else if reg = RegPPC then ppc cpu
     else if reg = RegIR then ucast (ir cpu)
     else if reg = RegCPUType then word_of_int (cpuType cpu)
     else 0)"

definition GetSP :: "'m CPU \<Rightarrow> u32" where
  "GetSP cpu = (if sr cpu AND 0x2000 \<noteq> 0 then a cpu 7 else usp cpu)"

definition SetSP :: "u32 \<Rightarrow> 'm CPU \<Rightarrow> 'm CPU" where
  "SetSP address cpu =
    (if sr cpu AND 0x2000 \<noteq> 0 then cpu\<lparr>a := (a cpu)(7 := address)\<rparr>
     else cpu\<lparr>usp := address\<rparr>)"

definition GetSR :: "'m CPU \<Rightarrow> u16" where
  "GetSR cpu = sr cpu"

definition SetSR :: "u16 \<Rightarrow> 'm CPU \<Rightarrow> 'm CPU" where
  "SetSR v cpu = cpu\<lparr>sr := v\<rparr>"

text \<open>
  Contexts. \<open>GetContext\<close> returns a fresh \<open>Context\<close>; \<open>SetContext\<close> takes a pointer, and
  panics on \<open>nil\<close>.
\<close>

definition GetContext :: "'m CPU \<Rightarrow> Context" where
  "GetContext cpu =
    \<lparr>Context.cpuType = cpuType cpu, Context.d = d cpu, Context.a = a cpu,
     Context.pc = pc cpu, Context.sr = sr cpu, Context.usp = usp cpu,
     Context.isp = isp cpu, Context.msp = msp cpu, Context.sfc = sfc cpu,
     Context.dfc = dfc cpu, Context.vbr = vbr cpu, Context.cacr = cacr cpu,
     Context.caar = caar cpu\<rparr>"

definition SetContext :: "Context option \<Rightarrow> 'm CPU \<Rightarrow> error + 'm CPU" where
  "SetContext ctx cpu =
    (case ctx of
       None \<Rightarrow> Inl NilPointer
     | Some c \<Rightarrow>
         Inr (cpu\<lparr>cpuType := Context.cpuType c, pc := Context.pc c, sr := Context.sr c,
                  usp := Context.usp c, isp := Context.isp c, msp := Context.msp c,
                  sfc := Context.sfc c, dfc := Context.dfc c, vbr := Context.vbr c,
                  cacr := Context.cacr c, caar := Context.caar c,
                  d := Context.d c, a := Context.a c\<rparr>))"

section \<open>Addressing modes (addressing.go)\<close>

definition readMem :: "u32 \<Rightarrow> int \<Rightarrow> 'm CPU \<Rightarrow> u32" where
  "readMem address sz cpu =
    (case memory cpu of
       None \<Rightarrow> 0
     | Some h \<Rightarrow>
         (if sz = 8 then ucast (mRead8 h address)
          else if sz = 16 then ucast (mRead16 h address)
          else if sz = 32 then mRead32 h address
          else 0))"

definition writeMem :: "u32 \<Rightarrow> u32 \<Rightarrow> int \<Rightarrow> 'm CPU \<Rightarrow> 'm CPU" where
  "writeMem address v sz cpu =
    (case memory cpu of
       None \<Rightarrow> cpu
     | Some h \<Rightarrow>
         (if sz = 8 then cpu\<lparr>memory := Some (mWrite8 h address (ucast v))\<rparr>
          else if sz = 16 then cpu\<lparr>memory := Some (mWrite16 h address (ucast v))\<rparr>
          else if sz = 32 then cpu\<lparr>memory := Some (mWrite32 h address v)\<rparr>
          else cpu))"

definition readImmediate16 :: "'m CPU \<Rightarrow> u16 \<times> 'm CPU" where
  "readImmediate16 cpu =
    (case memory cpu of
       None \<Rightarrow> (0, cpu)
     | Some h \<Rightarrow> (mRead16 h (pc cpu), cpu\<lparr>pc := pc cpu + 2\<rparr>))"

definition readImmediate32 :: "'m CPU \<Rightarrow> u32 \<times> 'm CPU" where
  "readImmediate32 cpu =
    (case memory cpu of
       None \<Rightarrow> (0, cpu)
     | Some h \<Rightarrow> (mRead32 h (pc cpu), cpu\<lparr>pc := pc cpu + 4\<rparr>))"

text \<open>
  The step of the modes \<open>(An)+\<close> and \<open>-(An)\<close>: \<open>uint32(size / 8)\<close>, and 2 for a byte on
  A7. Go's \<open>/\<close> truncates towards zero.
\<close>

definition eaStep :: "int \<Rightarrow> int \<Rightarrow> u32" where
  "eaStep sz reg = (if sz = 8 \<and> reg = 7 then 2 else word_of_int (sz sdiv 8))"

text \<open>The index register of an extension word: \<open>cpu.a[xn&7]\<close> or \<open>cpu.d[xn&7]\<close>,
  sign-extended from 16 bits when bit 11 is clear.\<close>

definition eaIndex :: "u32 \<Rightarrow> 'm CPU \<Rightarrow> u32" where
  "eaIndex ext cpu =
    (let xn = (ucast ((drop_bit 12 ext AND 0x0F) AND 7) :: 3 word);
         index = (if ext AND 0x8000 \<noteq> 0 then a cpu xn else d cpu xn)
     in if ext AND 0x800 = 0 then signExtend16 index else index)"

text \<open>
  \<open>readEA\<close> returns the operand and the CPU after the side effects of the mode. A mode
  outside \<open>0..7\<close>, and a register or size that mode 7 has no case for, return 0. An
  array is indexed with \<open>reg\<close> only in the modes 0 to 6, which panic when \<open>reg\<close> is
  outside \<open>0..7\<close>.
\<close>

definition readEA :: "int \<Rightarrow> int \<Rightarrow> int \<Rightarrow> 'm CPU \<Rightarrow> error + (u32 \<times> 'm CPU)" where
  "readEA mode reg sz cpu =
    (if mode = 0 then bindE (idx8 reg) (\<lambda>r. Inr (maskValue (d cpu r) sz, cpu))
     else if mode = 1 then bindE (idx8 reg) (\<lambda>r. Inr (a cpu r, cpu))
     else if mode = 2 then bindE (idx8 reg) (\<lambda>r. Inr (readMem (a cpu r) sz cpu, cpu))
     else if mode = 3 then
       bindE (idx8 reg) (\<lambda>r.
         let addr = a cpu r;
             val = readMem addr sz cpu;
             inc = eaStep sz reg
         in Inr (val, cpu\<lparr>a := (a cpu)(r := a cpu r + inc)\<rparr>))
     else if mode = 4 then
       bindE (idx8 reg) (\<lambda>r.
         let dec = eaStep sz reg;
             cpu = cpu\<lparr>a := (a cpu)(r := a cpu r - dec)\<rparr>
         in Inr (readMem (a cpu r) sz cpu, cpu))
     else if mode = 5 then
       (let (w, cpu) = readImmediate16 cpu;
            disp = signExtend16 (ucast w)
        in bindE (idx8 reg) (\<lambda>r. Inr (readMem (a cpu r + disp) sz cpu, cpu)))
     else if mode = 6 then
       (let (w, cpu) = readImmediate16 cpu;
            ext = (ucast w :: u32);
            disp = signExtend8 (ext AND 0xFF);
            index = eaIndex ext cpu
        in bindE (idx8 reg) (\<lambda>r. Inr (readMem (a cpu r + disp + index) sz cpu, cpu)))
     else if mode = 7 then
       (if reg = 0 then
          (let (w, cpu) = readImmediate16 cpu;
               addr = signExtend16 (ucast w)
           in Inr (readMem addr sz cpu, cpu))
        else if reg = 1 then
          (let (addr, cpu) = readImmediate32 cpu
           in Inr (readMem addr sz cpu, cpu))
        else if reg = 2 then
          (let oldPC = pc cpu;
               (w, cpu) = readImmediate16 cpu;
               disp = signExtend16 (ucast w)
           in Inr (readMem (oldPC + disp) sz cpu, cpu))
        else if reg = 3 then
          (let oldPC = pc cpu;
               (w, cpu) = readImmediate16 cpu;
               ext = (ucast w :: u32);
               disp = signExtend8 (ext AND 0xFF);
               index = eaIndex ext cpu
           in Inr (readMem (oldPC + disp + index) sz cpu, cpu))
        else if reg = 4 then
          (if sz = 8 then (let (w, cpu) = readImmediate16 cpu in Inr (ucast (w AND 0xFF), cpu))
           else if sz = 16 then (let (w, cpu) = readImmediate16 cpu in Inr (ucast w, cpu))
           else if sz = 32 then Inr (readImmediate32 cpu)
           else Inr (0, cpu))
        else Inr (0, cpu))
     else Inr (0, cpu))"

text \<open>
  \<open>writeEA\<close> masks the value to the size first. Mode 0 indexes \<open>cpu.d\<close> only for the
  sizes 8, 16 and 32; mode 7 writes only for the registers 0 and 1.
\<close>

definition writeEA :: "int \<Rightarrow> int \<Rightarrow> int \<Rightarrow> u32 \<Rightarrow> 'm CPU \<Rightarrow> error + 'm CPU" where
  "writeEA mode reg sz v0 cpu =
    (let v = maskValue v0 sz in
     if mode = 0 then
       (if sz = 8 then
          bindE (idx8 reg) (\<lambda>r. Inr (cpu\<lparr>d := (d cpu)(r := (d cpu r AND 0xFFFFFF00) OR (v AND 0xFF))\<rparr>))
        else if sz = 16 then
          bindE (idx8 reg) (\<lambda>r. Inr (cpu\<lparr>d := (d cpu)(r := (d cpu r AND 0xFFFF0000) OR (v AND 0xFFFF))\<rparr>))
        else if sz = 32 then
          bindE (idx8 reg) (\<lambda>r. Inr (cpu\<lparr>d := (d cpu)(r := v)\<rparr>))
        else Inr cpu)
     else if mode = 1 then bindE (idx8 reg) (\<lambda>r. Inr (cpu\<lparr>a := (a cpu)(r := v)\<rparr>))
     else if mode = 2 then bindE (idx8 reg) (\<lambda>r. Inr (writeMem (a cpu r) v sz cpu))
     else if mode = 3 then
       bindE (idx8 reg) (\<lambda>r.
         let addr = a cpu r;
             cpu = writeMem addr v sz cpu;
             inc = eaStep sz reg
         in Inr (cpu\<lparr>a := (a cpu)(r := a cpu r + inc)\<rparr>))
     else if mode = 4 then
       bindE (idx8 reg) (\<lambda>r.
         let dec = eaStep sz reg;
             cpu = cpu\<lparr>a := (a cpu)(r := a cpu r - dec)\<rparr>
         in Inr (writeMem (a cpu r) v sz cpu))
     else if mode = 5 then
       (let (w, cpu) = readImmediate16 cpu;
            disp = signExtend16 (ucast w)
        in bindE (idx8 reg) (\<lambda>r. Inr (writeMem (a cpu r + disp) v sz cpu)))
     else if mode = 6 then
       (let (w, cpu) = readImmediate16 cpu;
            ext = (ucast w :: u32);
            disp = signExtend8 (ext AND 0xFF);
            index = eaIndex ext cpu
        in bindE (idx8 reg) (\<lambda>r. Inr (writeMem (a cpu r + disp + index) v sz cpu)))
     else if mode = 7 then
       (if reg = 0 then
          (let (w, cpu) = readImmediate16 cpu;
               addr = signExtend16 (ucast w)
           in Inr (writeMem addr v sz cpu))
        else if reg = 1 then
          (let (addr, cpu) = readImmediate32 cpu
           in Inr (writeMem addr v sz cpu))
        else Inr cpu)
     else Inr cpu)"

section \<open>MOVEQ (opcodes.go)\<close>

definition opIllegal :: "u16 \<Rightarrow> 'm CPU \<Rightarrow> 'm CPU" where
  "opIllegal opcode cpu = useCycles 4 cpu"

definition opMOVEQ :: "u16 \<Rightarrow> 'm CPU \<Rightarrow> 'm CPU" where
  "opMOVEQ opcode cpu0 =
    (let reg = (ucast (drop_bit 9 opcode AND 7) :: 3 word);
         data = signExtend8 (ucast (opcode AND 0xFF));
         cpu = cpu0\<lparr>d := (d cpu0)(reg := data)\<rparr>;
         cpu = setFlagsLogical data 32 cpu
     in useCycles 4 cpu)"

definition decodeMOVEQ :: "u16 \<Rightarrow> 'm CPU \<Rightarrow> 'm CPU" where
  "decodeMOVEQ opcode cpu =
    (if opcode AND 0x0100 = 0 then opMOVEQ opcode cpu else opIllegal opcode cpu)"

section \<open>Example machines\<close>

text \<open>
  A memory handler as the tests attach one: big-endian bytes, here over the whole 32-bit
  address space, all zero at first.
\<close>

definition flatMemory :: "(u32 \<Rightarrow> u8) MemoryHandler" where
  "flatMemory =
    \<lparr>self = (\<lambda>_. 0),
     Read8 = (\<lambda>m addr. m addr),
     Read16 = (\<lambda>m addr. push_bit 8 (ucast (m addr)) OR ucast (m (addr + 1))),
     Read32 = (\<lambda>m addr. push_bit 24 (ucast (m addr)) OR push_bit 16 (ucast (m (addr + 1)))
                OR push_bit 8 (ucast (m (addr + 2))) OR ucast (m (addr + 3))),
     Write8 = (\<lambda>m addr v. m(addr := v)),
     Write16 = (\<lambda>m addr v. m(addr := ucast (drop_bit 8 v), addr + 1 := ucast v)),
     Write32 = (\<lambda>m addr v. m(addr := ucast (drop_bit 24 v), addr + 1 := ucast (drop_bit 16 v),
                addr + 2 := ucast (drop_bit 8 v), addr + 3 := ucast v))\<rparr>"

text \<open>
  The machine of \<open>TestMOVEQInstruction\<close>: SSP \<open>0x1000\<close> at address 0, PC \<open>0x400\<close> at
  address 4, the word \<open>0x7042\<close> (MOVEQ #$42,D0) at \<open>0x400\<close>; a 68000 with this memory
  attached, after \<open>Reset\<close>.
\<close>

definition moveqMemory :: "(u32 \<Rightarrow> u8) MemoryHandler" where
  "moveqMemory =
    mWrite16 (mWrite32 (mWrite32 flatMemory 0 0x00001000) 4 0x00000400) 0x400 0x7042"

definition moveqCPU :: "(u32 \<Rightarrow> u8) CPU" where
  "moveqCPU = Reset (SetMemoryHandler (Some moveqMemory) (NewCPU CPU68000))"

text \<open>A CPU with no memory handler, as \<open>NewCPU\<close> returns it.\<close>

definition nilCPU :: "(u32 \<Rightarrow> u8) CPU" where
  "nilCPU = NewCPU CPU68000"

text \<open>
  A CPU in user mode with the trace bit set (\<open>sr = 0x8000\<close>), supervisor stack pointer
  \<open>a[7] = 0x1000\<close>, user stack pointer \<open>usp = 0x2000\<close>, PC \<open>0x400\<close>, and a memory
  whose level-3 autovector (address \<open>0x6C\<close>) holds \<open>0x500\<close>.
\<close>

definition userCPU :: "(u32 \<Rightarrow> u8) CPU" where
  "userCPU =
    (NewCPU CPU68000)\<lparr>memory := Some (mWrite32 flatMemory 0x6C 0x00000500),
       sr := 0x8000, a := (\<lambda>_. 0)(7 := 0x1000), usp := 0x2000, pc := 0x400\<rparr>"

section \<open>Auxiliary notions of the statements and proofs\<close>

text \<open>The status register after \<open>setFlagsLogical\<close>, given the new N and Z.\<close>

definition srNZ :: "bool \<Rightarrow> bool \<Rightarrow> u16 \<Rightarrow> u16" where
  "srNZ fn fz x =
    (let sr1 = clearBits x (FlagV OR FlagC);
         sr2 = (if fn then setBits sr1 FlagN else clearBits sr1 FlagN)
     in if fz then setBits sr2 FlagZ else clearBits sr2 FlagZ)"

text \<open>The status register as \<open>handleInterrupt\<close> leaves it.\<close>

definition irqSR :: "u8 \<Rightarrow> u16 \<Rightarrow> u16" where
  "irqSR level s = ((s OR 0x2000) AND 0xF8FF) OR push_bit 8 (ucast level)"

text \<open>
  The states of a call of \<open>Execute\<close> at the head of its loop: the state the loop starts
  from, and the state after each pass made while the loop condition holds.
\<close>

inductive Execute_reach :: "'m CPU \<Rightarrow> 'm CPU \<Rightarrow> bool" for c0 where
  reach_start: "Execute_reach c0 c0"
| reach_step: "Execute_reach c0 c \<Longrightarrow> Execute_cond c \<Longrightarrow> Execute_body c = Inr c' \<Longrightarrow>
     Execute_reach c0 c'"

text \<open>
  One pass of the loop, with no instruction hook: from \<open>s\<close>, the interrupt check leaves
  \<open>c1\<close> (after the exception's \<open>useCycles\<close>, when an interrupt is taken), and the
  instruction leaves \<open>s'\<close> (after its \<open>useCycles\<close>).
\<close>

definition Execute_pass :: "'m CPU \<Rightarrow> 'm CPU \<Rightarrow> 'm CPU \<Rightarrow> bool" where
  "Execute_pass s c1 s' =
    (checkInterrupts s = Inr c1 \<and> executeInstruction (c1\<lparr>ppc := pc c1\<rparr>) = Inr s' \<and>
     Execute_body s = Inr s')"

text \<open>The state \<open>Execute\<close> enters its loop with.\<close>

definition Execute_start :: "gint \<Rightarrow> 'm CPU \<Rightarrow> 'm CPU" where
  "Execute_start n cpu = cpu\<lparr>cyclesRemain := n, cyclesRun := 0\<rparr>"

text \<open>
  The invariant of the loop when the counters do not wrap: the sum is \<open>n\<close> also as
  integers, and \<open>cyclesRun\<close> is not negative.
\<close>

definition cycles_inv :: "gint \<Rightarrow> 'm CPU \<Rightarrow> bool" where
  "cycles_inv n s = (cyclesRun s + cyclesRemain s = n \<and> 0 \<le> sint (cyclesRun s) \<and>
     sint (cyclesRun s) + sint (cyclesRemain s) = sint n)"

section \<open>Condition codes: proofs\<close>

lemma Flag_pow:
  "FlagC = 2 ^ 0" "FlagV = 2 ^ 1" "FlagZ = 2 ^ 2" "FlagN = 2 ^ 3" "FlagX = 2 ^ 4"
  by (simp_all add: FlagC_def FlagV_def FlagZ_def FlagN_def FlagX_def)

lemma test_pow: "((x::u16) AND 2 ^ k \<noteq> 0) = bit x k"
  by (simp add: and_exp_eq_0_iff_not_bit)

lemma bit_setBits_pow: "k < 16 \<Longrightarrow> bit (setBits x (2 ^ k)) n = (bit x n \<or> n = k)"
  by (auto simp: setBits_def bit_simps)

lemma bit_clearBits_pow: "bit (clearBits x (2 ^ k)) n = (bit x n \<and> n \<noteq> k)"
  by (auto simp: clearBits_def bit_simps dest: bit_imp_le_length)

lemma test_flag:
  "(x AND FlagC \<noteq> 0) = bit x 0" "(x AND FlagV \<noteq> 0) = bit x 1"
  "(x AND FlagZ \<noteq> 0) = bit x 2" "(x AND FlagN \<noteq> 0) = bit x 3"
  "(x AND FlagX \<noteq> 0) = bit x 4"
  unfolding Flag_pow by (rule test_pow)+

lemma bit_setBits:
  "bit (setBits x FlagC) n = (bit x n \<or> n = 0)" "bit (setBits x FlagV) n = (bit x n \<or> n = 1)"
  "bit (setBits x FlagZ) n = (bit x n \<or> n = 2)" "bit (setBits x FlagN) n = (bit x n \<or> n = 3)"
  "bit (setBits x FlagX) n = (bit x n \<or> n = 4)"
  unfolding Flag_pow by (rule bit_setBits_pow, simp)+

lemma bit_clearBits:
  "bit (clearBits x FlagC) n = (bit x n \<and> n \<noteq> 0)"
  "bit (clearBits x FlagV) n = (bit x n \<and> n \<noteq> 1)"
  "bit (clearBits x FlagZ) n = (bit x n \<and> n \<noteq> 2)"
  "bit (clearBits x FlagN) n = (bit x n \<and> n \<noteq> 3)"
  "bit (clearBits x FlagX) n = (bit x n \<and> n \<noteq> 4)"
  unfolding Flag_pow by (rule bit_clearBits_pow)+

lemma clearBits_OR: "clearBits x (m1 OR m2) = clearBits (clearBits x m1) m2"
  by (simp add: clearBits_def and.assoc)

lemma setBits_OR: "setBits x (m1 OR m2) = setBits (setBits x m1) m2"
  by (simp add: setBits_def or.assoc)

lemmas bit_flags = clearBits_OR setBits_OR bit_setBits bit_clearBits

lemma sign_bit32:
  "((r::u32) AND 0x80 \<noteq> 0) = bit r 7" "(r AND 0x8000 \<noteq> 0) = bit r 15"
  "(r AND 0x80000000 \<noteq> 0) = bit r 31"
  using and_exp_eq_0_iff_not_bit[of r 7] and_exp_eq_0_iff_not_bit[of r 15]
    and_exp_eq_0_iff_not_bit[of r 31]
  by simp_all

lemma mask32: "(r::u32) AND 0xFF = take_bit 8 r" "r AND 0xFFFF = take_bit 16 r"
  by (simp_all add: take_bit_eq_mask mask_eq_exp_minus_1)

lemma take_bit32: "take_bit 32 (r::u32) = r"
  by (simp add: take_bit_word_eq_self)

lemma bit_srNZ:
  "bit (srNZ fn fz x) n =
    (if n = 0 \<or> n = 1 then False else if n = 2 then fz else if n = 3 then fn else bit x n)"
  by (auto simp: srNZ_def Let_def bit_flags)

lemma sr_setFlagsLogical:
  "sz = 8 \<or> sz = 16 \<or> sz = 32 \<Longrightarrow>
   setFlagsLogical result sz cpu =
     cpu\<lparr>sr := srNZ (bit result (nat sz - 1)) (take_bit (nat sz) result = 0) (sr cpu)\<rparr>"
  by (auto simp: setFlagsLogical_def srNZ_def Let_def sign_bit32 mask32 take_bit32)

text \<open>
  C4. For every status register, result and size in \<open>{8, 16, 32}\<close>, \<open>setFlagsLogical\<close>
  changes only the status register, clears V and C, sets N to the sign bit of the result
  at that size (bit \<open>size - 1\<close>), sets Z exactly when the low \<open>size\<close> bits of the result
  are zero, and leaves X and every bit of SR other than N, Z, V, C unchanged.
\<close>

theorem setFlagsLogical_flags:
  assumes "sz = 8 \<or> sz = 16 \<or> sz = 32"
  shows "setFlagsLogical result sz cpu = cpu\<lparr>sr := sr (setFlagsLogical result sz cpu)\<rparr> \<and>
    sr (setFlagsLogical result sz cpu) AND FlagV = 0 \<and>
    sr (setFlagsLogical result sz cpu) AND FlagC = 0 \<and>
    (sr (setFlagsLogical result sz cpu) AND FlagN \<noteq> 0) = bit result (nat sz - 1) \<and>
    (sr (setFlagsLogical result sz cpu) AND FlagZ \<noteq> 0) = (take_bit (nat sz) result = 0) \<and>
    sr (setFlagsLogical result sz cpu) AND FlagX = sr cpu AND FlagX \<and>
    clearBits (sr (setFlagsLogical result sz cpu)) (FlagN OR FlagZ OR FlagV OR FlagC)
      = clearBits (sr cpu) (FlagN OR FlagZ OR FlagV OR FlagC)"
proof -
  let ?s = "srNZ (bit result (nat sz - 1)) (take_bit (nat sz) result = 0) (sr cpu)"
  have eq: "setFlagsLogical result sz cpu = cpu\<lparr>sr := ?s\<rparr>"
    using assms by (rule sr_setFlagsLogical)
  have v: "(?s AND FlagV \<noteq> 0) = False"
    by (simp only: test_flag bit_srNZ) simp
  have c: "(?s AND FlagC \<noteq> 0) = False"
    by (simp only: test_flag bit_srNZ) simp
  have n: "(?s AND FlagN \<noteq> 0) = bit result (nat sz - 1)"
    by (simp only: test_flag bit_srNZ) simp
  have z: "(?s AND FlagZ \<noteq> 0) = (take_bit (nat sz) result = 0)"
    by (simp only: test_flag bit_srNZ) simp
  have x: "?s AND FlagX = sr cpu AND FlagX"
    unfolding Flag_pow by (rule bit_word_eqI) (auto simp: bit_simps bit_srNZ)
  have r: "clearBits ?s (FlagN OR FlagZ OR FlagV OR FlagC)
      = clearBits (sr cpu) (FlagN OR FlagZ OR FlagV OR FlagC)"
    by (rule bit_word_eqI) (auto simp: bit_flags bit_srNZ)
  show ?thesis unfolding eq using v c n z x r by simp
qed

theorem setFlagsLogical_flags_witness:
  "((8::int) = 8 \<or> (8::int) = 16 \<or> (8::int) = 32) \<and>
   sr (setFlagsLogical 0x80 8 (nilCPU\<lparr>sr := 0x1F\<rparr>)) AND FlagV = 0 \<and>
   sr (setFlagsLogical 0x80 8 (nilCPU\<lparr>sr := 0x1F\<rparr>)) AND FlagC = 0 \<and>
   sr (setFlagsLogical 0x80 8 (nilCPU\<lparr>sr := 0x1F\<rparr>)) AND FlagN \<noteq> 0 \<and>
   sr (setFlagsLogical 0x80 8 (nilCPU\<lparr>sr := 0x1F\<rparr>)) AND FlagZ = 0 \<and>
   sr (setFlagsLogical 0x80 8 (nilCPU\<lparr>sr := 0x1F\<rparr>)) AND FlagX = FlagX"
  using setFlagsLogical_flags[of 8 "0x80" "nilCPU\<lparr>sr := 0x1F\<rparr>"]
  by (simp add: FlagX_def)

text \<open>
  \<open>setFlagsAdd\<close> and \<open>setFlagsSub\<close> compute C and X from the carry or borrow and V from
  the sign bits, and then end with a call of \<open>setFlagsLogical\<close> (commented "Set N and Z"),
  which clears V and C again: after either setter V and C are always 0.
\<close>

lemma and_or_eq_0: "(x::u16) AND (m1 OR m2) = 0 \<longleftrightarrow> x AND m1 = 0 \<and> x AND m2 = 0"
  by (simp add: bit.conj_disj_distrib or_eq_0_iff)

lemma setFlagsLogical_VC_clear:
  "sr (setFlagsLogical result sz cpu) AND (FlagV OR FlagC) = 0"
proof -
  have "\<not> bit (sr (setFlagsLogical result sz cpu)) 1 \<and> \<not> bit (sr (setFlagsLogical result sz cpu)) 0"
  proof (cases "sz = 8 \<or> sz = 16 \<or> sz = 32")
    case True
    show ?thesis
      unfolding sr_setFlagsLogical[OF True] by (simp add: bit_srNZ)
  next
    case False
    then have "sr (setFlagsLogical result sz cpu) = clearBits (sr cpu) (FlagV OR FlagC)"
      by (simp add: setFlagsLogical_def Let_def)
    then show ?thesis
      by (simp add: bit_flags)
  qed
  then show ?thesis
    using test_flag(1,2)[of "sr (setFlagsLogical result sz cpu)"]
    by (simp only: and_or_eq_0) blast
qed

lemma setFlagsAdd_VC_clear:
  "sr (setFlagsAdd dest src result sz cpu) AND (FlagV OR FlagC) = 0"
  by (simp add: setFlagsAdd_def Let_def split_def setFlagsLogical_VC_clear)

lemma setFlagsSub_VC_clear:
  "sr (setFlagsSub dest src result sz cpu) AND (FlagV OR FlagC) = 0"
  by (simp add: setFlagsSub_def Let_def split_def setFlagsLogical_VC_clear)

text \<open>
  C5. The claim: for operands masked to the width and a size in \<open>{8, 16, 32}\<close>,
  \<open>setFlagsAdd\<close> and \<open>setFlagsSub\<close> leave V as the overflow of the operation, C as its
  carry or borrow, and X equal to the new C. The code does not: at size 8 with \<open>sr = 0\<close>
  before, \<open>0xFF + 0x01\<close> carries, and SR ends as \<open>0x14\<close> (X and Z set, C clear);
  \<open>0x7F + 0x01\<close> overflows, and SR ends as \<open>0x08\<close> (N set, V clear); \<open>0x00 - 0x01\<close>
  borrows, and SR ends as \<open>0x18\<close> (X and N set, C clear).
\<close>

theorem setFlagsAdd_carry_lost:
  "sr (setFlagsAdd 0xFF 0x01 0x100 8 nilCPU) = 0x14 \<and>
   sr (setFlagsAdd 0x7F 0x01 0x80 8 nilCPU) = 0x08 \<and>
   sr (setFlagsSub 0x00 0x01 0xFFFFFFFF 8 nilCPU) = 0x18"
  by (simp add: setFlagsAdd_def setFlagsSub_def setFlagsLogical_def nilCPU_def NewCPU_def
      Let_def setBits_def clearBits_def FlagC_def FlagV_def FlagZ_def FlagN_def FlagX_def)

lemmas Cond_defs = CondT_def CondF_def CondHI_def CondLS_def CondCC_def CondCS_def CondNE_def
  CondEQ_def CondVC_def CondVS_def CondPL_def CondMI_def CondGE_def CondLT_def CondGT_def
  CondLE_def

text \<open>
  C7. For every 16-bit status register \<open>s\<close> and each of the eight complementary pairs
  of condition codes (T/F, HI/LS, CC/CS, NE/EQ, VC/VS, PL/MI, GE/LT, GT/LE), exactly one
  condition of the pair tests true.
\<close>

theorem testCondition_complement:
  "testCondition CondT (cpu\<lparr>sr := s\<rparr>) \<noteq> testCondition CondF (cpu\<lparr>sr := s\<rparr>) \<and>
   testCondition CondHI (cpu\<lparr>sr := s\<rparr>) \<noteq> testCondition CondLS (cpu\<lparr>sr := s\<rparr>) \<and>
   testCondition CondCC (cpu\<lparr>sr := s\<rparr>) \<noteq> testCondition CondCS (cpu\<lparr>sr := s\<rparr>) \<and>
   testCondition CondNE (cpu\<lparr>sr := s\<rparr>) \<noteq> testCondition CondEQ (cpu\<lparr>sr := s\<rparr>) \<and>
   testCondition CondVC (cpu\<lparr>sr := s\<rparr>) \<noteq> testCondition CondVS (cpu\<lparr>sr := s\<rparr>) \<and>
   testCondition CondPL (cpu\<lparr>sr := s\<rparr>) \<noteq> testCondition CondMI (cpu\<lparr>sr := s\<rparr>) \<and>
   testCondition CondGE (cpu\<lparr>sr := s\<rparr>) \<noteq> testCondition CondLT (cpu\<lparr>sr := s\<rparr>) \<and>
   testCondition CondGT (cpu\<lparr>sr := s\<rparr>) \<noteq> testCondition CondLE (cpu\<lparr>sr := s\<rparr>)"
  by (simp add: testCondition_def Cond_defs Let_def) blast

section \<open>The CPU core: proofs\<close>

text \<open>
  C3. The claim has two parts. The first holds: \<open>GetSP\<close> (and \<open>GetRegister RegSP\<close>)
  returns \<open>a[7]\<close> when the supervisor bit (bit 13 of SR) is set and \<open>usp\<close> otherwise. The
  second does not: \<open>SetSR\<close> stores the new SR and nothing else, so no stack pointer is
  written back when S flips. On \<open>userCPU\<close> (user mode, \<open>a[7] = 0x1000\<close>,
  \<open>usp = 0x2000\<close>) the write \<open>SetSR 0x2000\<close> leaves user mode, and \<open>usp\<close> is still
  \<open>0x2000\<close>, not the former \<open>a[7]\<close>.
\<close>

theorem SetSR_no_writeback:
  "\<not> bit (sr userCPU) 13 \<and> bit (sr (SetSR 0x2000 userCPU)) 13 \<and>
   a userCPU 7 = 0x1000 \<and> usp (SetSR 0x2000 userCPU) = 0x2000"
  by (simp add: userCPU_def SetSR_def NewCPU_def)

text \<open>
  C3, amended. \<open>GetSP\<close> and \<open>GetRegister RegSP\<close> return \<open>a[7]\<close> when S is set and
  \<open>usp\<close> otherwise; a write of SR changes only SR, so \<open>a[7]\<close>, \<open>usp\<close>, \<open>isp\<close> and
  \<open>msp\<close> all keep their values whether or not S flips, and after the write \<open>GetSP\<close>
  returns the old \<open>a[7]\<close> when the new S is set and the old \<open>usp\<close> otherwise.
\<close>

theorem GetSP_SetSR:
  "GetSP cpu = (if bit (sr cpu) 13 then a cpu 7 else usp cpu) \<and>
   GetRegister RegSP cpu = GetSP cpu \<and>
   SetSR v cpu = cpu\<lparr>sr := v\<rparr> \<and>
   a (SetSR v cpu) = a cpu \<and> usp (SetSR v cpu) = usp cpu \<and>
   isp (SetSR v cpu) = isp cpu \<and> msp (SetSR v cpu) = msp cpu \<and>
   GetSP (SetSR v cpu) = (if bit v 13 then a cpu 7 else usp cpu)"
  using and_exp_eq_0_iff_not_bit[of "sr cpu" 13] and_exp_eq_0_iff_not_bit[of "v" 13]
  by (simp add: GetSP_def GetRegister_def SetSR_def RegSP_def RegD0_def RegD7_def RegA0_def
      RegA7_def RegPC_def RegSR_def)

text \<open>
  C8. For every CPU, \<open>SetContext\<close> of its own \<open>GetContext\<close> returns the CPU unchanged;
  and for every context \<open>c\<close>, \<open>SetContext\<close> of \<open>c\<close> succeeds and \<open>GetContext\<close> of the
  CPU it leaves is \<open>c\<close>: the records are equal, so all thirteen fields are.
\<close>

theorem Context_roundtrip:
  "SetContext (Some (GetContext cpu)) cpu = Inr cpu \<and>
   (\<exists>cpu'. SetContext (Some c) cpu = Inr cpu' \<and> GetContext cpu' = c)"
  by (simp add: SetContext_def GetContext_def)

text \<open>
  C9. With no memory handler, \<open>Execute\<close> returns 0 and the CPU unchanged, and \<open>Reset\<close>
  initialises the state with both reset vectors zero (\<open>a[7] = 0\<close>, \<open>pc = 0\<close>). Neither
  panics: \<open>Execute\<close> returns a result, and \<open>Reset\<close> has no failing branch.
\<close>

theorem nil_memory:
  assumes "memory cpu = None"
  shows "Execute n cpu = Inr (0, cpu) \<and>
    Reset cpu = cpu\<lparr>d := (\<lambda>_. 0), a := (\<lambda>_. 0), sr := 0x2700, sfc := 0, dfc := 0, vbr := 0,
       cacr := 0, caar := 0, stopped := False, halted := False, cyclesRun := 0,
       cyclesRemain := 0, irqLevel := 0, pc := 0, usp := 0, isp := 0, msp := 0,
       prefetchAddr := 0, prefetchData := 0, ppc := 0, ir := 0\<rparr> \<and>
    a (Reset cpu) 7 = 0 \<and> pc (Reset cpu) = 0"
  using assms by (simp add: Execute_def Reset_def Let_def fun_eq_iff)

theorem nil_memory_witness:
  "memory nilCPU = None \<and> Execute 1000 nilCPU = Inr (0, nilCPU) \<and>
   a (Reset nilCPU) 7 = 0 \<and> pc (Reset nilCPU) = 0 \<and> sr (Reset nilCPU) = 0x2700"
  using nil_memory[of nilCPU 1000] by (simp add: nilCPU_def NewCPU_def)

text \<open>What the memory and the CPU of \<open>TestMOVEQInstruction\<close> hold.\<close>

lemma moveqMemory_reads:
  "mRead32 moveqMemory 0 = 0x1000" "mRead32 moveqMemory 4 = 0x400"
  "mRead16 moveqMemory 0x400 = 0x7042" "mRead16 moveqMemory 0x402 = 0"
  "mRead16 moveqMemory 0x404 = 0"
  by (simp_all add: moveqMemory_def flatMemory_def mRead32_def mRead16_def mWrite16_def
      mWrite32_def)

lemma moveqCPU_eq:
  "moveqCPU = (NewCPU CPU68000)\<lparr>memory := Some moveqMemory, sr := 0x2700,
     a := (\<lambda>_. 0)(7 := 0x1000), pc := 0x400, ppc := 0x400\<rparr>"
  by (simp add: moveqCPU_def Reset_def SetMemoryHandler_def NewCPU_def Let_def
      moveqMemory_reads)

text \<open>
  C1. The claim: after \<open>Reset\<close> and one \<open>Execute\<close> pass over MOVEQ #$42,D0 the CPU has
  \<open>d[0] = 0x42\<close>, with N, Z, V, C clear. \<open>executeInstruction\<close> fetches the opcode and
  charges four cycles, but never decodes it: \<open>d[0]\<close> stays 0. With a budget of 10 cycles
  (the call of \<open>TestMOVEQInstruction\<close>) three instructions are fetched; with a budget of
  1, only the MOVEQ.
\<close>

theorem Execute_moveq_not_decoded:
  "(case Execute 10 moveqCPU of
      Inl e \<Rightarrow> False
    | Inr (n, cpu) \<Rightarrow> n = 12 \<and> d cpu 0 = 0 \<and> pc cpu = 0x406 \<and> sr cpu = 0x2700) \<and>
   (case Execute 1 moveqCPU of
      Inl e \<Rightarrow> False
    | Inr (n, cpu) \<Rightarrow> n = 4 \<and> ir cpu = 0x7042 \<and> d cpu 0 = 0 \<and> pc cpu = 0x402 \<and>
        sr cpu = 0x2700)"
  by (simp add: Execute_def moveqCPU_eq NewCPU_def Let_def moveqMemory_reads
      Execute_loop.simps Execute_cond_def Execute_body_def checkInterrupts_def
      executeInstruction_def useCycles_def word_sless_alt)

text \<open>
  The decoder of opcodes.go, which \<open>executeInstruction\<close> does not call, does what the
  claim says on this opcode.
\<close>

lemma decodeMOVEQ_moveq:
  "d (decodeMOVEQ 0x7042 moveqCPU) 0 = 0x42 \<and> sr (decodeMOVEQ 0x7042 moveqCPU) = 0x2700"
  by (simp add: decodeMOVEQ_def opMOVEQ_def moveqCPU_eq NewCPU_def Let_def signExtend8_def
      setFlagsLogical_def useCycles_def setBits_def clearBits_def FlagC_def FlagV_def
      FlagZ_def FlagN_def)

text \<open>
  More generally, for every CPU and every budget, \<open>Execute\<close> leaves all data registers as
  they were: the loop executes no instruction.
\<close>

lemma handleInterrupt_d: "handleInterrupt l c = Inr c' \<Longrightarrow> d c' = d c"
  by (cases "memory c")
     (simp_all add: handleInterrupt_def pushLong_def pushWord_def useCycles_def Let_def, auto)

lemma checkInterrupts_d: "checkInterrupts c = Inr c' \<Longrightarrow> d c' = d c"
  by (auto simp: checkInterrupts_def Let_def dest: handleInterrupt_d split: if_splits)

lemma executeInstruction_d: "executeInstruction c = Inr c' \<Longrightarrow> d c' = d c"
  by (cases "memory c")
     (auto simp: executeInstruction_def useCycles_def Let_def split: if_splits option.splits)

lemma Execute_body_d: "Execute_body c = Inr c' \<Longrightarrow> d c' = d c"
proof -
  assume b: "Execute_body c = Inr c'"
  then obtain c1 where c1: "checkInterrupts c = Inr c1"
    and e: "executeInstruction (c1\<lparr>ppc := pc c1\<rparr>) = Inr c'"
    by (auto simp: Execute_body_def Let_def split: sum.splits)
  from executeInstruction_d[OF e] checkInterrupts_d[OF c1] show ?thesis by simp
qed

lemma Execute_loop_d: "Execute_loop c = Inr c' \<Longrightarrow> d c' = d c"
proof (induction c rule: Execute_loop.induct)
  case (1 cpu)
  show ?case
  proof (cases "Execute_cond cpu")
    case False
    with "1.prems" show ?thesis by (simp add: Execute_loop.simps[of cpu])
  next
    case True
    with "1.prems" obtain c1 where b: "Execute_body cpu = Inr c1" and l: "Execute_loop c1 = Inr c'"
      by (auto simp: Execute_loop.simps[of cpu] split: sum.splits)
    from "1.IH"[OF True b l] Execute_body_d[OF b] show ?thesis by simp
  qed
qed

lemma Execute_d: "Execute n cpu = Inr (r, cpu') \<Longrightarrow> d cpu' = d cpu"
proof (cases "memory cpu")
  case None
  then show "Execute n cpu = Inr (r, cpu') \<Longrightarrow> d cpu' = d cpu" by (simp add: Execute_def)
next
  case (Some h)
  assume "Execute n cpu = Inr (r, cpu')"
  with Some have "Execute_loop (cpu\<lparr>cyclesRemain := n, cyclesRun := 0\<rparr>) = Inr cpu'"
    by (simp add: Execute_def Let_def split: sum.splits)
  from Execute_loop_d[OF this] show "d cpu' = d cpu" by simp
qed

section \<open>Interrupts: proofs\<close>

lemma bit_0x2000: "bit (0x2000::u16) n = (n = 13)"
proof -
  have "(0x2000::u16) = 2 ^ 13" by simp
  then show ?thesis by (simp only: bit_exp_iff possible_bit_word) auto
qed

lemma bit_0xF8FF: "bit (0xF8FF::u16) n = (n < 16 \<and> \<not> (8 \<le> n \<and> n < 11))"
proof -
  have "(0xF8FF::u16) = NOT (push_bit 8 (mask 3))" by (simp add: mask_eq_exp_minus_1)
  then show ?thesis
    by (simp only: bit_not_iff bit_push_bit_iff bit_mask_iff possible_bit_word) auto
qed

lemma bit_0x07: "bit (0x07::u16) n = (n < 3)"
proof -
  have "(0x07::u16) = mask 3" by (simp add: mask_eq_exp_minus_1)
  then show ?thesis
    by (simp only: bit_mask_iff possible_bit_word) auto
qed

lemma bit_0xD8FF:
  "bit (0xD8FF::u16) n = (n < 16 \<and> n \<noteq> 13 \<and> \<not> (8 \<le> n \<and> n < 11))"
proof -
  have "(0xD8FF::u16) = NOT (2 ^ 13 OR push_bit 8 (mask 3))"
    by (simp add: mask_eq_exp_minus_1)
  then show ?thesis
    by (simp only: bit_not_iff bit_or_iff bit_exp_iff bit_push_bit_iff bit_mask_iff
        possible_bit_word) auto
qed

lemma level_bits: "(level::u8) \<le> 7 \<Longrightarrow> bit level n \<Longrightarrow> n < 3"
proof -
  assume l: "level \<le> 7" and b: "bit level n"
  have "level < 2 ^ 3" using l by (simp add: word_le_nat_alt word_less_nat_alt)
  then have "level AND mask 3 = level" by (rule less_mask_eq)
  then have "bit (level AND mask 3) n" using b by simp
  then show "n < 3" by (simp add: bit_simps)
qed

lemma bit_irqSR:
  assumes "level \<le> 7"
  shows "bit (irqSR level s) n =
    (if n = 13 then True else if 8 \<le> n \<and> n < 11 then bit level (n - 8) else bit s n)"
proof -
  have "bit (irqSR level s) n =
     ((bit s n \<or> n = 13) \<and> (n < 16 \<and> \<not> (8 \<le> n \<and> n < 11)) \<or>
      (8 \<le> n \<and> n < 16 \<and> bit level (n - 8)))"
    unfolding irqSR_def
    by (simp only: bit_or_iff bit_and_iff bit_0x2000 bit_0xF8FF bit_push_bit_iff bit_ucast_iff
        possible_bit_word) auto
  also have "\<dots> =
      (if n = 13 then True else if 8 \<le> n \<and> n < 11 then bit level (n - 8) else bit s n)"
    using level_bits[OF assms, of "n - 8"] bit_imp_le_length[of s n]
    by auto
  finally show ?thesis .
qed

lemma irqSR_S: "level \<le> 7 \<Longrightarrow> bit (irqSR level s) 13"
  by (simp add: bit_irqSR)

lemma irqSR_T: "level \<le> 7 \<Longrightarrow> bit (irqSR level s) 15 = bit s 15"
  by (simp add: bit_irqSR)

lemma irqSR_mask:
  assumes "level \<le> 7"
  shows "ucast (drop_bit 8 (irqSR level s) AND 0x07) = level"
proof (rule bit_word_eqI)
  fix n assume "n < LENGTH(8)"
  have "bit (ucast (drop_bit 8 (irqSR level s) AND 0x07) :: u8) n =
      (n < 8 \<and> bit (irqSR level s) (8 + n) \<and> n < 3)"
    by (simp only: bit_ucast_iff bit_and_iff bit_drop_bit_eq bit_0x07 possible_bit_word
        comp_def) auto
  also have "\<dots> = bit level n"
    using level_bits[OF assms, of n] by (auto simp: bit_irqSR[OF assms])
  finally show "bit (ucast (drop_bit 8 (irqSR level s) AND 0x07) :: u8) n = bit level n" .
qed

lemma irqSR_rest:
  assumes "level \<le> 7"
  shows "irqSR level s AND 0xD8FF = s AND 0xD8FF"
proof (rule bit_word_eqI)
  fix n assume "n < LENGTH(16)"
  show "bit (irqSR level s AND 0xD8FF) n = bit (s AND 0xD8FF) n"
    by (simp only: bit_and_iff bit_0xD8FF bit_irqSR[OF assms]) auto
qed

text \<open>
  \<open>checkInterrupts\<close> accepts the pending level \<open>L\<close> when it is 7, or above the mask
  field of SR; accepting is the call of \<open>handleInterrupt\<close>.
\<close>

lemma checkInterrupts_accepts:
  assumes "irqLevel cpu \<noteq> 0"
    and "irqLevel cpu = 7 \<or> irqLevel cpu > ucast (drop_bit 8 (sr cpu) AND 0x07)"
  shows "checkInterrupts cpu = handleInterrupt (irqLevel cpu) cpu"
  using assms by (simp add: checkInterrupts_def Let_def)

lemma handleInterrupt_Some:
  assumes "memory cpu = Some h"
  shows "handleInterrupt level cpu =
    Inr (cpu\<lparr>sr := irqSR level (sr cpu),
            a := (a cpu)(7 := a cpu 7 - 6),
            memory := Some (mWrite16 (mWrite32 h (a cpu 7 - 4) (pc cpu)) (a cpu 7 - 6) (sr cpu)),
            pc := mRead32 (mWrite16 (mWrite32 h (a cpu 7 - 4) (pc cpu)) (a cpu 7 - 6) (sr cpu))
                   (let vector = (case intAckCallback cpu of
                                    Some callback \<Rightarrow> callback (uint level)
                                  | None \<Rightarrow> IntAckAutovector);
                        vector = (if vector = IntAckAutovector then 0x18 + ucast level
                                  else if vector = IntAckSpurious then 0x18 else vector)
                    in if cpuType cpu \<ge> CPU68010 then vbr cpu + vector * 4 else vector * 4),
            cyclesRun := cyclesRun cpu + 44,
            cyclesRemain := cyclesRemain cpu - 44\<rparr>)"
  using assms
  by (simp add: handleInterrupt_def pushLong_def pushWord_def useCycles_def Let_def irqSR_def)

lemma userCPU_memory: "memory userCPU = Some (mWrite32 flatMemory 0x6C 0x00000500)"
  by (simp add: userCPU_def)

lemma userCPU_handleInterrupt:
  "handleInterrupt 3 userCPU =
    Inr (userCPU\<lparr>sr := 0xA300, a := (\<lambda>_. 0)(7 := 0xFFA),
           memory := Some (mWrite16 (mWrite32 (mWrite32 flatMemory 0x6C 0x00000500) 0xFFC 0x400)
                      0xFFA 0x8000),
           pc := 0x500, cyclesRun := 44, cyclesRemain := - 44\<rparr>)"
  unfolding handleInterrupt_Some[OF userCPU_memory]
  by (simp add: userCPU_def NewCPU_def irqSR_def CPU68000_def CPU68010_def IntAckAutovector_def
      flatMemory_def mRead32_def mWrite16_def mWrite32_def)

text \<open>
  C2. The claim says that handling an interrupt clears the trace bit. \<open>handleInterrupt\<close>
  sets S and the interrupt mask and touches no other bit of SR: on \<open>userCPU\<close>, whose SR
  is \<open>0x8000\<close> (trace on), an interrupt of level 3 leaves \<open>sr = 0xA300\<close>, with bit 15
  still set.
\<close>

theorem handleInterrupt_keeps_trace:
  "bit (sr userCPU) 15 \<and>
   (case handleInterrupt 3 userCPU of
      Inl e \<Rightarrow> False
    | Inr cpu' \<Rightarrow> sr cpu' = 0xA300 \<and> bit (sr cpu') 15)"
  unfolding userCPU_handleInterrupt by (simp add: userCPU_def)

text \<open>
  C2, amended. For every CPU with a memory handler \<open>h\<close> and every level \<open>L \<le> 7\<close>,
  \<open>handleInterrupt\<close> succeeds and leaves: S (bit 13 of SR) set; the interrupt mask (bits 8
  to 10) equal to \<open>L\<close>; the trace bit (bit 15) and every other bit of SR as they were; the
  PC pushed as a long at \<open>a[7] - 4\<close> and then the SR from before the exception pushed as a
  word at \<open>a[7] - 6\<close>, with \<open>a[7]\<close> lowered by 6; and the PC loaded, from the memory after
  the two pushes, at \<open>vbr + vector * 4\<close> when \<open>cpuType \<ge> CPU68010\<close> and at \<open>vector * 4\<close>
  otherwise, where the vector is \<open>0x18 + L\<close> when there is no interrupt-acknowledge
  callback or it returns \<open>IntAckAutovector\<close>, \<open>0x18\<close> when it returns \<open>IntAckSpurious\<close>,
  and the value it returns otherwise.
\<close>

theorem handleInterrupt_effect:
  assumes "memory cpu = Some h" and "level \<le> 7"
  shows "\<exists>cpu'. handleInterrupt level cpu = Inr cpu' \<and>
    bit (sr cpu') 13 \<and>
    ucast (drop_bit 8 (sr cpu') AND 0x07) = level \<and>
    bit (sr cpu') 15 = bit (sr cpu) 15 \<and>
    sr cpu' AND 0xD8FF = sr cpu AND 0xD8FF \<and>
    a cpu' = (a cpu)(7 := a cpu 7 - 6) \<and>
    memory cpu' = Some (mWrite16 (mWrite32 h (a cpu 7 - 4) (pc cpu)) (a cpu 7 - 6) (sr cpu)) \<and>
    pc cpu' = mRead32 (mWrite16 (mWrite32 h (a cpu 7 - 4) (pc cpu)) (a cpu 7 - 6) (sr cpu))
      (let vector =
         (case intAckCallback cpu of
            None \<Rightarrow> 0x18 + ucast level
          | Some callback \<Rightarrow>
              if callback (uint level) = IntAckAutovector then 0x18 + ucast level
              else if callback (uint level) = IntAckSpurious then 0x18
              else callback (uint level))
       in if cpuType cpu \<ge> CPU68010 then vbr cpu + vector * 4 else vector * 4)"
  unfolding handleInterrupt_Some[OF assms(1)]
  using irqSR_S[OF assms(2), of "sr cpu"] irqSR_T[OF assms(2), of "sr cpu"]
    irqSR_mask[OF assms(2), of "sr cpu"] irqSR_rest[OF assms(2), of "sr cpu"]
  by (simp add: Let_def split: option.split)

theorem handleInterrupt_effect_witness:
  "memory userCPU = Some (mWrite32 flatMemory 0x6C 0x00000500) \<and> (3::u8) \<le> 7 \<and>
   (\<exists>cpu'. handleInterrupt 3 userCPU = Inr cpu' \<and> bit (sr cpu') 13 \<and>
      ucast (drop_bit 8 (sr cpu') AND 0x07) = (3::u8) \<and> a cpu' 7 = 0xFFA \<and> pc cpu' = 0x500)"
proof -
  have l: "(3::u8) \<le> 7" by simp
  from handleInterrupt_effect[OF userCPU_memory l]
  obtain cpu' where c: "handleInterrupt 3 userCPU = Inr cpu'" "bit (sr cpu') 13"
    "ucast (drop_bit 8 (sr cpu') AND 0x07) = (3::u8)"
    by blast
  from c(1) have "a cpu' 7 = 0xFFA \<and> pc cpu' = 0x500"
    unfolding userCPU_handleInterrupt by auto
  with c l userCPU_memory show ?thesis by simp
qed

section \<open>Addressing modes: proofs\<close>

lemma eaStep_sizes:
  "eaStep 8 reg = (if reg = 7 then 2 else 1)" "eaStep 16 reg = 2" "eaStep 32 reg = 4"
  by (simp_all add: eaStep_def signed_divide_int_def)

lemma readMem_a_upd: "readMem addr sz (cpu\<lparr>a := f\<rparr>) = readMem addr sz cpu"
  by (simp add: readMem_def)

lemma writeMem_a_upd:
  "writeMem addr v sz (cpu\<lparr>a := f\<rparr>) = (writeMem addr v sz cpu)\<lparr>a := f\<rparr>"
  by (simp add: writeMem_def split: option.split)

lemma a_writeMem: "a (writeMem addr v sz cpu) = a cpu"
  by (simp add: writeMem_def split: option.split)

text \<open>
  C6. For every register \<open>reg\<close> in \<open>0..7\<close> and size in \<open>{8, 16, 32}\<close>: the step is
  \<open>size / 8\<close> bytes, and 2 when \<open>reg = 7\<close> and \<open>size = 8\<close>; mode 3 reads (writes) memory
  at the old \<open>a[reg]\<close> and leaves \<open>a[reg]\<close> raised by the step; mode 4 lowers \<open>a[reg]\<close> by
  the step and reads (writes) memory at the new value. In each case \<open>a[reg]\<close> moves by
  one step, no other register changes, and with a handler \<open>h\<close> attached the access is the
  handler's read or write of that size at that address.
\<close>

theorem autoinc_autodec:
  assumes "0 \<le> reg" "reg < 8" and "sz = 8 \<or> sz = 16 \<or> sz = 32"
  shows "eaStep sz reg = (if sz = 8 \<and> reg = 7 then 2 else word_of_int (sz div 8)) \<and>
    readEA 3 reg sz cpu =
      Inr (readMem (a cpu (word_of_int reg)) sz cpu,
           cpu\<lparr>a := (a cpu)(word_of_int reg := a cpu (word_of_int reg) + eaStep sz reg)\<rparr>) \<and>
    readEA 4 reg sz cpu =
      Inr (readMem (a cpu (word_of_int reg) - eaStep sz reg) sz cpu,
           cpu\<lparr>a := (a cpu)(word_of_int reg := a cpu (word_of_int reg) - eaStep sz reg)\<rparr>) \<and>
    writeEA 3 reg sz v cpu =
      Inr ((writeMem (a cpu (word_of_int reg)) (maskValue v sz) sz cpu)
             \<lparr>a := (a cpu)(word_of_int reg := a cpu (word_of_int reg) + eaStep sz reg)\<rparr>) \<and>
    writeEA 4 reg sz v cpu =
      Inr ((writeMem (a cpu (word_of_int reg) - eaStep sz reg) (maskValue v sz) sz cpu)
             \<lparr>a := (a cpu)(word_of_int reg := a cpu (word_of_int reg) - eaStep sz reg)\<rparr>) \<and>
    (\<forall>h addr. memory cpu = Some h \<longrightarrow>
       readMem addr sz cpu =
         (if sz = 8 then ucast (mRead8 h addr)
          else if sz = 16 then ucast (mRead16 h addr) else mRead32 h addr) \<and>
       writeMem addr (maskValue v sz) sz cpu =
         cpu\<lparr>memory := Some
           (if sz = 8 then mWrite8 h addr (ucast v)
            else if sz = 16 then mWrite16 h addr (ucast v) else mWrite32 h addr v)\<rparr>)"
proof -
  have i: "idx8 reg = Inr (word_of_int reg)"
    using assms(1,2) by (simp add: idx8_def)
  have s: "eaStep sz reg = (if sz = 8 \<and> reg = 7 then 2 else word_of_int (sz div 8))"
    using assms(3) by (auto simp: eaStep_sizes)
  have r3: "readEA 3 reg sz cpu =
      Inr (readMem (a cpu (word_of_int reg)) sz cpu,
           cpu\<lparr>a := (a cpu)(word_of_int reg := a cpu (word_of_int reg) + eaStep sz reg)\<rparr>)"
    by (simp add: readEA_def i bindE_def Let_def)
  have r4: "readEA 4 reg sz cpu =
      Inr (readMem (a cpu (word_of_int reg) - eaStep sz reg) sz cpu,
           cpu\<lparr>a := (a cpu)(word_of_int reg := a cpu (word_of_int reg) - eaStep sz reg)\<rparr>)"
    by (simp add: readEA_def i bindE_def Let_def readMem_a_upd)
  have w3: "writeEA 3 reg sz v cpu =
      Inr ((writeMem (a cpu (word_of_int reg)) (maskValue v sz) sz cpu)
             \<lparr>a := (a cpu)(word_of_int reg := a cpu (word_of_int reg) + eaStep sz reg)\<rparr>)"
    by (simp add: writeEA_def i bindE_def Let_def a_writeMem)
  have w4: "writeEA 4 reg sz v cpu =
      Inr ((writeMem (a cpu (word_of_int reg) - eaStep sz reg) (maskValue v sz) sz cpu)
             \<lparr>a := (a cpu)(word_of_int reg := a cpu (word_of_int reg) - eaStep sz reg)\<rparr>)"
    by (simp add: writeEA_def i bindE_def Let_def writeMem_a_upd)
  have m8: "(ucast (v AND 0xFF) :: u8) = ucast v"
    by (rule bit_word_eqI) (auto simp: bit_simps mask32)
  have m16: "(ucast (v AND 0xFFFF) :: u16) = ucast v"
    by (rule bit_word_eqI) (auto simp: bit_simps mask32)
  have mem: "\<forall>h addr. memory cpu = Some h \<longrightarrow>
       readMem addr sz cpu =
         (if sz = 8 then ucast (mRead8 h addr)
          else if sz = 16 then ucast (mRead16 h addr) else mRead32 h addr) \<and>
       writeMem addr (maskValue v sz) sz cpu =
         cpu\<lparr>memory := Some
           (if sz = 8 then mWrite8 h addr (ucast v)
            else if sz = 16 then mWrite16 h addr (ucast v) else mWrite32 h addr v)\<rparr>"
    using assms(3) by (auto simp: readMem_def writeMem_def maskValue_def m8 m16)
  show ?thesis using s r3 r4 w3 w4 mem by simp
qed

theorem autoinc_autodec_witness:
  "(0::int) \<le> 7 \<and> (7::int) < 8 \<and> ((8::int) = 8 \<or> (8::int) = 16 \<or> (8::int) = 32) \<and>
   eaStep 8 7 = 2 \<and>
   (case readEA 3 7 8 userCPU of
      Inl e \<Rightarrow> False
    | Inr (val, cpu') \<Rightarrow> val = readMem 0x1000 8 userCPU \<and> a cpu' 7 = 0x1002 \<and> a cpu' 0 = 0) \<and>
   (case writeEA 4 7 8 0xAB userCPU of
      Inl e \<Rightarrow> False
    | Inr cpu' \<Rightarrow> a cpu' 7 = 0xFFE \<and> a cpu' 0 = 0 \<and>
        memory cpu' = Some (mWrite8 (mWrite32 flatMemory 0x6C 0x00000500) 0xFFE 0xAB))"
  using autoinc_autodec[where reg = 7 and sz = 8 and v = "0xAB" and cpu = userCPU]
  by (simp add: userCPU_def NewCPU_def)

section \<open>The execution loop: proofs\<close>

lemma sint_add_nonneg:
  assumes "0 \<le> sint (r::gint)" "0 \<le> k" "sint r + k < 2 ^ 63"
  shows "sint (r + word_of_int k) = sint r + k"
proof -
  have k: "sint (word_of_int k :: gint) = k"
    using assms by (simp add: sint_sbintrunc' signed_take_bit_int_eq_self)
  have "sint (r + word_of_int k) = signed_take_bit 63 (sint r + k)"
    by (simp add: sint_word_ariths k)
  also have "\<dots> = sint r + k"
    using assms by (intro signed_take_bit_int_eq_self) auto
  finally show ?thesis .
qed

lemma useCycles_sum:
  "cyclesRun (useCycles k c) + cyclesRemain (useCycles k c) = cyclesRun c + cyclesRemain c"
  by (simp add: useCycles_def Let_def)

lemma handleInterrupt_total:
  "memory c \<noteq> None \<Longrightarrow> \<exists>c'. handleInterrupt l c = Inr c' \<and> memory c' \<noteq> None \<and>
     cyclesRun c' = cyclesRun c + 44 \<and> cyclesRemain c' = cyclesRemain c - 44 \<and>
     stopped c' = stopped c \<and> halted c' = halted c \<and> irqLevel c' = irqLevel c"
  by (auto simp: handleInterrupt_def pushLong_def pushWord_def useCycles_def Let_def)

lemma checkInterrupts_total:
  "memory c \<noteq> None \<Longrightarrow> \<exists>c'. checkInterrupts c = Inr c' \<and> memory c' \<noteq> None \<and>
     (cyclesRun c' = cyclesRun c \<and> cyclesRemain c' = cyclesRemain c \<or>
      cyclesRun c' = cyclesRun c + 44 \<and> cyclesRemain c' = cyclesRemain c - 44) \<and>
     stopped c' = stopped c \<and> halted c' = halted c \<and> irqLevel c' = irqLevel c \<and>
     (irqLevel c = 0 \<longrightarrow> c' = c)"
  using handleInterrupt_total[of c "irqLevel c"]
  by (auto simp: checkInterrupts_def Let_def)

lemma executeInstruction_total:
  "memory c \<noteq> None \<Longrightarrow> \<exists>c'. executeInstruction c = Inr c' \<and> memory c' \<noteq> None \<and>
     cyclesRun c' = cyclesRun c + 4 \<and> cyclesRemain c' = cyclesRemain c - 4 \<and>
     stopped c' = stopped c \<and> halted c' = halted c \<and> irqLevel c' = irqLevel c"
  by (auto simp: executeInstruction_def useCycles_def Let_def split: option.splits)

lemma Execute_body_total:
  assumes "memory c \<noteq> None"
  shows "\<exists>c'. Execute_body c = Inr c' \<and> memory c' \<noteq> None \<and>
     (cyclesRun c' = cyclesRun c + 4 \<and> cyclesRemain c' = cyclesRemain c - 4 \<or>
      cyclesRun c' = cyclesRun c + 48 \<and> cyclesRemain c' = cyclesRemain c - 48) \<and>
     stopped c' = stopped c \<and> halted c' = halted c \<and> irqLevel c' = irqLevel c \<and>
     (irqLevel c = 0 \<longrightarrow> cyclesRemain c' = cyclesRemain c - 4)"
proof -
  from checkInterrupts_total[OF assms] obtain c1 where
    c1: "checkInterrupts c = Inr c1" "memory c1 \<noteq> None"
      "cyclesRun c1 = cyclesRun c \<and> cyclesRemain c1 = cyclesRemain c \<or>
       cyclesRun c1 = cyclesRun c + 44 \<and> cyclesRemain c1 = cyclesRemain c - 44"
      "stopped c1 = stopped c" "halted c1 = halted c" "irqLevel c1 = irqLevel c"
      "irqLevel c = 0 \<longrightarrow> c1 = c"
    by blast
  let ?c2 = "c1\<lparr>ppc := pc c1\<rparr>"
  have "memory ?c2 \<noteq> None" using c1(2) by simp
  from executeInstruction_total[OF this] obtain c' where
    c': "executeInstruction ?c2 = Inr c'" "memory c' \<noteq> None"
      "cyclesRun c' = cyclesRun ?c2 + 4" "cyclesRemain c' = cyclesRemain ?c2 - 4"
      "stopped c' = stopped ?c2" "halted c' = halted ?c2" "irqLevel c' = irqLevel ?c2"
    by blast
  have b: "Execute_body c = Inr c'"
    using c1(1) c'(1) by (simp add: Execute_body_def Let_def)
  show ?thesis
    using b c1 c' by auto
qed

lemma Execute_loop_total:
  "memory c \<noteq> None \<Longrightarrow> \<exists>c'. Execute_loop c = Inr c' \<and> Execute_reach c c' \<and> \<not> Execute_cond c'"
proof (induction c rule: Execute_loop.induct)
  case (1 cpu)
  show ?case
  proof (cases "Execute_cond cpu")
    case False
    then show ?thesis by (simp add: Execute_loop.simps[of cpu] reach_start)
  next
    case True
    from Execute_body_total[OF "1.prems"] obtain c1 where
      b: "Execute_body cpu = Inr c1" and m: "memory c1 \<noteq> None" by blast
    from "1.IH"[OF True b m] obtain c' where
      l: "Execute_loop c1 = Inr c'" "Execute_reach c1 c'" "\<not> Execute_cond c'" by blast
    have r: "Execute_reach cpu c1" by (rule reach_step[OF reach_start True b])
    have "Execute_reach cpu c'" using l(2) r
      by (induction rule: Execute_reach.induct) (auto intro: reach_step)
    then show ?thesis using True b l by (simp add: Execute_loop.simps[of cpu])
  qed
qed


lemma reach_sum:
  assumes "memory c0 \<noteq> None" and "Execute_reach c0 s"
  shows "memory s \<noteq> None \<and> cyclesRun s + cyclesRemain s = cyclesRun c0 + cyclesRemain c0"
  using assms(2)
proof (induction rule: Execute_reach.induct)
  case reach_start
  show ?case using assms(1) by simp
next
  case (reach_step c c')
  from Execute_body_total[of c] reach_step.IH reach_step.hyps(3)
  show ?case by auto
qed

lemma cycles_inv_step:
  assumes inv: "cycles_inv n s" and bound: "sint n \<le> 2 ^ 63 - 48"
    and pos: "0 <s cyclesRemain s" and k: "0 \<le> k" "k \<le> 48"
    and s': "cyclesRun s' = cyclesRun s + word_of_int k" "cyclesRemain s' = cyclesRemain s - word_of_int k"
  shows "cycles_inv n s' \<and> sint (cyclesRun s') = sint (cyclesRun s) + k"
proof -
  have p: "0 < sint (cyclesRemain s)" using pos by (simp add: word_sless_alt)
  have r: "sint (cyclesRemain s') = sint (cyclesRemain s) - k"
    unfolding s' using k by (intro sint_sub_pos[OF pos]) auto
  have "sint (cyclesRun s) + k < 2 ^ 63"
    using inv bound p k by (simp add: cycles_inv_def)
  then have u: "sint (cyclesRun s') = sint (cyclesRun s) + k"
    unfolding s' using inv k by (intro sint_add_nonneg) (auto simp: cycles_inv_def)
  show ?thesis
    using inv r u k s' by (simp add: cycles_inv_def)
qed

lemma cycles_inv_body:
  assumes inv: "cycles_inv n s" and bound: "sint n \<le> 2 ^ 63 - 48"
    and m: "memory s \<noteq> None" and c: "Execute_cond s"
  shows "\<exists>c1 s'. checkInterrupts s = Inr c1 \<and> executeInstruction (c1\<lparr>ppc := pc c1\<rparr>) = Inr s' \<and>
      Execute_body s = Inr s' \<and>
      cycles_inv n c1 \<and> cycles_inv n s' \<and>
      sint (cyclesRun s) \<le> sint (cyclesRun c1) \<and> sint (cyclesRun c1) < sint (cyclesRun s')"
proof -
  have pos: "0 <s cyclesRemain s" using c by (simp add: Execute_cond_def)
  from checkInterrupts_total[OF m] obtain c1 where
    c1: "checkInterrupts s = Inr c1" "memory c1 \<noteq> None"
      "cyclesRun c1 = cyclesRun s \<and> cyclesRemain c1 = cyclesRemain s \<or>
       cyclesRun c1 = cyclesRun s + 44 \<and> cyclesRemain c1 = cyclesRemain s - 44"
    by blast
  let ?c2 = "c1\<lparr>ppc := pc c1\<rparr>"
  have "memory ?c2 \<noteq> None" using c1(2) by simp
  from executeInstruction_total[OF this] obtain s' where
    s': "executeInstruction ?c2 = Inr s'"
      "cyclesRun s' = cyclesRun c1 + 4" "cyclesRemain s' = cyclesRemain c1 - 4"
    by auto
  have b: "Execute_body s = Inr s'"
    using c1(1) s'(1) by (simp add: Execute_body_def Let_def)
  from c1(3) show ?thesis
  proof
    assume e: "cyclesRun c1 = cyclesRun s \<and> cyclesRemain c1 = cyclesRemain s"
    have i1: "cycles_inv n c1" using inv e by (simp add: cycles_inv_def)
    have "cycles_inv n s' \<and> sint (cyclesRun s') = sint (cyclesRun s) + 4"
      using cycles_inv_step[OF inv bound pos, of 4 s'] s' e by simp
    then show ?thesis using c1(1) s'(1) b i1 e by auto
  next
    assume e: "cyclesRun c1 = cyclesRun s + 44 \<and> cyclesRemain c1 = cyclesRemain s - 44"
    have i1: "cycles_inv n c1 \<and> sint (cyclesRun c1) = sint (cyclesRun s) + 44"
      using cycles_inv_step[OF inv bound pos, of 44 c1] e by simp
    have "cycles_inv n s' \<and> sint (cyclesRun s') = sint (cyclesRun s) + 48"
      using cycles_inv_step[OF inv bound pos, of 48 s'] s' e by simp
    then show ?thesis using c1(1) s'(1) b i1 by auto
  qed
qed

lemma reach_inv:
  assumes "memory c0 \<noteq> None" "cyclesRun c0 = 0" "cyclesRemain c0 = n" "sint n \<le> 2 ^ 63 - 48"
    and "Execute_reach c0 s"
  shows "memory s \<noteq> None \<and> cycles_inv n s"
  using assms(5)
proof (induction rule: Execute_reach.induct)
  case reach_start
  show ?case using assms(1-3) by (simp add: cycles_inv_def)
next
  case (reach_step c c')
  then have i: "cycles_inv n c" and m: "memory c \<noteq> None" by simp_all
  from cycles_inv_body[OF i assms(4) m reach_step.hyps(2)] reach_step.hyps(3)
  have "cycles_inv n c'" by auto
  moreover from Execute_body_total[OF m] reach_step.hyps(3) have "memory c' \<noteq> None" by auto
  ultimately show ?case by simp
qed


lemma and3_sub4: "((x::gint) - 4) AND 3 = x AND 3"
proof -
  have m: "(3::gint) = mask 2" by (simp add: mask_eq_exp_minus_1)
  have a: "uint (x - 4) mod 4 = uint x mod 4"
  proof -
    have "uint (x - 4) = (uint x - 4) mod 2 ^ 64" by (simp add: uint_word_ariths)
    then have "uint (x - 4) mod 4 = ((uint x - 4) mod 2 ^ 64) mod 4" by simp
    also have "\<dots> = (uint x - 4) mod 4" by (rule mod_mod_cancel) simp
    also have "\<dots> = uint x mod 4" by (simp add: mod_diff_right_eq[symmetric] del: mod_diff_right_eq)
    finally show ?thesis .
  qed
  have "(x - 4) AND mask 2 = word_of_int (uint (x - 4) mod 2 ^ 2)" by (rule and_mask_mod_2p)
  also have "\<dots> = word_of_int (uint x mod 2 ^ 2)" using a by simp
  also have "\<dots> = x AND mask 2" by (rule and_mask_mod_2p[symmetric])
  finally show ?thesis unfolding m .
qed



lemma small_neg:
  assumes "- 4 < sint (w::gint)" "sint w \<le> 0" "w AND 3 = 3"
  shows "w = - 1"
proof -
  have "sint w = - 3 \<or> sint w = - 2 \<or> sint w = - 1 \<or> sint w = 0" using assms(1,2) by arith
  moreover have "sint w = k \<Longrightarrow> w = word_of_int k" for k by auto
  ultimately have "w = word_of_int (- 3) \<or> w = word_of_int (- 2) \<or> w = word_of_int (- 1)
      \<or> w = word_of_int 0"
    by blast
  then have "w = - 3 \<or> w = - 2 \<or> w = - 1 \<or> w = 0" by simp
  then show ?thesis using assms(3) by auto
qed

lemma pass_sum:
  assumes m: "memory s \<noteq> None"
  shows "\<exists>c1 s'. Execute_pass s c1 s' \<and>
     cyclesRun c1 + cyclesRemain c1 = cyclesRun s + cyclesRemain s \<and>
     cyclesRun s' + cyclesRemain s' = cyclesRun s + cyclesRemain s"
proof -
  from checkInterrupts_total[OF m] obtain c1 where
    c1: "checkInterrupts s = Inr c1" "memory c1 \<noteq> None"
      "cyclesRun c1 = cyclesRun s \<and> cyclesRemain c1 = cyclesRemain s \<or>
       cyclesRun c1 = cyclesRun s + 44 \<and> cyclesRemain c1 = cyclesRemain s - 44"
    by blast
  let ?c2 = "c1\<lparr>ppc := pc c1\<rparr>"
  have "memory ?c2 \<noteq> None" using c1(2) by simp
  from executeInstruction_total[OF this] obtain s' where
    s': "executeInstruction ?c2 = Inr s'"
      "cyclesRun s' = cyclesRun c1 + 4" "cyclesRemain s' = cyclesRemain c1 - 4"
    by auto
  have b: "Execute_body s = Inr s'"
    using c1(1) s'(1) by (simp add: Execute_body_def Let_def)
  have "Execute_pass s c1 s'" using c1(1) s'(1) b by (simp add: Execute_pass_def)
  moreover have "cyclesRun c1 + cyclesRemain c1 = cyclesRun s + cyclesRemain s"
    using c1(3) by auto
  moreover have "cyclesRun s' + cyclesRemain s' = cyclesRun s + cyclesRemain s"
    using c1(3) s'(2,3) by auto
  ultimately show ?thesis by blast
qed

lemma pass_mono:
  assumes inv: "cycles_inv n s" and bound: "sint n \<le> 2 ^ 63 - 48"
    and m: "memory s \<noteq> None" and c: "Execute_cond s" and p: "Execute_pass s c1 s'"
  shows "sint (cyclesRun s) \<le> sint (cyclesRun c1) \<and> sint (cyclesRun c1) < sint (cyclesRun s')"
  using cycles_inv_body[OF inv bound m c] p by (auto simp: Execute_pass_def)

text \<open>
  C10, amended. For a CPU with a memory handler and no interrupt-acknowledge, reset or
  instruction-hook callback, and every budget \<open>n\<close>: \<open>Execute n\<close> returns; every
  \<open>useCycles\<close> keeps \<open>cyclesRun + cyclesRemain\<close>; in every state at the head of the loop,
  and after the interrupt check and after the instruction of every pass,
  \<open>cyclesRun + cyclesRemain = n\<close> (in 64-bit arithmetic); the value returned is the final
  \<open>cyclesRun\<close>, which is \<open>n\<close> minus the final \<open>cyclesRemain\<close>. When moreover
  \<open>n \<le> 2^63 - 48\<close>, so that the counter cannot wrap, \<open>cyclesRun\<close> is never negative and
  never decreases: the interrupt check does not lower it and the instruction raises it.
\<close>

theorem Execute_cycle_accounting:
  assumes m: "memory cpu \<noteq> None"
    and cb: "intAckCallback cpu = None" "resetCallback cpu = None" "instrHookCallback cpu = None"
  shows "(\<exists>r cpu'. Execute n cpu = Inr (r, cpu') \<and> Execute_reach (Execute_start n cpu) cpu' \<and>
            r = cyclesRun cpu' \<and> r = n - cyclesRemain cpu') \<and>
    (\<forall>k c::'m CPU. cyclesRun (useCycles k c) + cyclesRemain (useCycles k c) =
        cyclesRun c + cyclesRemain c) \<and>
    (\<forall>s. Execute_reach (Execute_start n cpu) s \<longrightarrow>
       cyclesRun s + cyclesRemain s = n \<and>
       (Execute_cond s \<longrightarrow>
          (\<exists>c1 s'. Execute_pass s c1 s' \<and> cyclesRun c1 + cyclesRemain c1 = n \<and>
             cyclesRun s' + cyclesRemain s' = n))) \<and>
    (sint n \<le> 2 ^ 63 - 48 \<longrightarrow>
       (\<forall>s. Execute_reach (Execute_start n cpu) s \<longrightarrow>
          0 \<le> sint (cyclesRun s) \<and>
          (\<forall>c1 s'. Execute_cond s \<and> Execute_pass s c1 s' \<longrightarrow>
             sint (cyclesRun s) \<le> sint (cyclesRun c1) \<and>
             sint (cyclesRun c1) < sint (cyclesRun s'))))"
proof -
  let ?c0 = "Execute_start n cpu"
  have m0: "memory ?c0 \<noteq> None" using m by (simp add: Execute_start_def)
  have r0: "cyclesRun ?c0 = 0" and e0: "cyclesRemain ?c0 = n" by (simp_all add: Execute_start_def)
  have sum: "memory s \<noteq> None \<and> cyclesRun s + cyclesRemain s = n" if "Execute_reach ?c0 s" for s
    using reach_sum[OF m0 that] r0 e0 by simp
  from Execute_loop_total[OF m0] obtain cpu' where
    l: "Execute_loop ?c0 = Inr cpu'" "Execute_reach ?c0 cpu'" by blast
  have ex: "Execute n cpu = Inr (cyclesRun cpu', cpu')"
    using m l(1) by (cases "memory cpu") (simp_all add: Execute_def Execute_start_def Let_def)
  have "cyclesRun cpu' = n - cyclesRemain cpu'" using sum[OF l(2)] by auto
  with ex l(2) have part1: "\<exists>r cpu'. Execute n cpu = Inr (r, cpu') \<and> Execute_reach ?c0 cpu' \<and>
            r = cyclesRun cpu' \<and> r = n - cyclesRemain cpu'" by blast
  have part2: "\<forall>s. Execute_reach ?c0 s \<longrightarrow>
       cyclesRun s + cyclesRemain s = n \<and>
       (Execute_cond s \<longrightarrow>
          (\<exists>c1 s'. Execute_pass s c1 s' \<and> cyclesRun c1 + cyclesRemain c1 = n \<and>
             cyclesRun s' + cyclesRemain s' = n))"
  proof (intro allI impI conjI)
    fix s assume r: "Execute_reach ?c0 s"
    show "cyclesRun s + cyclesRemain s = n" using sum[OF r] by simp
    from sum[OF r] pass_sum[of s]
    show "\<exists>c1 s'. Execute_pass s c1 s' \<and> cyclesRun c1 + cyclesRemain c1 = n \<and>
             cyclesRun s' + cyclesRemain s' = n" by auto
  qed
  have part3: "sint n \<le> 2 ^ 63 - 48 \<longrightarrow>
       (\<forall>s. Execute_reach ?c0 s \<longrightarrow>
          0 \<le> sint (cyclesRun s) \<and>
          (\<forall>c1 s'. Execute_cond s \<and> Execute_pass s c1 s' \<longrightarrow>
             sint (cyclesRun s) \<le> sint (cyclesRun c1) \<and>
             sint (cyclesRun c1) < sint (cyclesRun s')))"
  proof (intro allI impI)
    fix s assume b: "sint n \<le> 2 ^ 63 - 48" and r: "Execute_reach ?c0 s"
    from reach_inv[OF m0 r0 e0 b r] have ms: "memory s \<noteq> None" and i: "cycles_inv n s" by simp_all
    show "0 \<le> sint (cyclesRun s) \<and>
          (\<forall>c1 s'. Execute_cond s \<and> Execute_pass s c1 s' \<longrightarrow>
             sint (cyclesRun s) \<le> sint (cyclesRun c1) \<and>
             sint (cyclesRun c1) < sint (cyclesRun s'))"
      using i pass_mono[OF i b ms] by (auto simp: cycles_inv_def)
  qed
  show ?thesis using part1 part2 part3 useCycles_sum by blast
qed


theorem Execute_cycle_accounting_witness:
  "memory moveqCPU \<noteq> None \<and> intAckCallback moveqCPU = None \<and> resetCallback moveqCPU = None \<and>
   instrHookCallback moveqCPU = None \<and>
   (\<exists>r cpu'. Execute 10 moveqCPU = Inr (r, cpu') \<and> r = cyclesRun cpu' \<and>
      r = 10 - cyclesRemain cpu')"
proof -
  have h: "memory moveqCPU \<noteq> None" "intAckCallback moveqCPU = None"
    "resetCallback moveqCPU = None" "instrHookCallback moveqCPU = None"
    by (simp_all add: moveqCPU_eq NewCPU_def)
  from Execute_cycle_accounting[OF h, of 10]
  have "\<exists>r cpu'. Execute 10 moveqCPU = Inr (r, cpu') \<and> r = cyclesRun cpu' \<and>
      r = 10 - cyclesRemain cpu'"
    by blast
  with h show ?thesis by simp
qed

lemma loop_irq0:
  "memory c \<noteq> None \<Longrightarrow> irqLevel c = 0 \<Longrightarrow> \<not> stopped c \<Longrightarrow> \<not> halted c \<Longrightarrow>
   \<exists>c'. Execute_loop c = Inr c' \<and> cyclesRemain c' AND 3 = cyclesRemain c AND 3 \<and>
        (0 <s cyclesRemain c \<longrightarrow> - 4 < sint (cyclesRemain c') \<and> sint (cyclesRemain c') \<le> 0)"
proof (induction c rule: Execute_loop.induct)
  case (1 cpu)
  show ?case
  proof (cases "Execute_cond cpu")
    case False
    then have "Execute_loop cpu = Inr cpu" by (simp add: Execute_loop.simps[of cpu])
    moreover have "\<not> 0 <s cyclesRemain cpu" using False "1.prems"(3,4) by (simp add: Execute_cond_def)
    ultimately show ?thesis by simp
  next
    case True
    then have pos: "0 <s cyclesRemain cpu" by (simp add: Execute_cond_def)
    from Execute_body_total[OF "1.prems"(1)] "1.prems"(2) obtain c1 where
      b: "Execute_body cpu = Inr c1" and m1: "memory c1 \<noteq> None"
      and f: "stopped c1 = stopped cpu" "halted c1 = halted cpu" "irqLevel c1 = irqLevel cpu"
      and r1: "cyclesRemain c1 = cyclesRemain cpu - 4"
      by auto
    from "1.IH"[OF True b m1] f "1.prems" obtain c' where
      l: "Execute_loop c1 = Inr c'" "cyclesRemain c' AND 3 = cyclesRemain c1 AND 3"
        "0 <s cyclesRemain c1 \<longrightarrow> - 4 < sint (cyclesRemain c') \<and> sint (cyclesRemain c') \<le> 0"
      by auto
    have e: "Execute_loop cpu = Inr c'"
      using True b l(1) by (simp add: Execute_loop.simps[of cpu])
    have a3: "cyclesRemain c' AND 3 = cyclesRemain cpu AND 3"
      using l(2) r1 by (simp add: and3_sub4)
    have bd: "- 4 < sint (cyclesRemain c') \<and> sint (cyclesRemain c') \<le> 0"
    proof (cases "0 <s cyclesRemain c1")
      case True
      with l(3) show ?thesis by simp
    next
      case False
      then have "\<not> Execute_cond c1" by (simp add: Execute_cond_def)
      then have "Execute_loop c1 = Inr c1" by (simp add: Execute_loop.simps[of c1])
      with l(1) have "c' = c1" by simp
      moreover have "sint (cyclesRemain c1) = sint (cyclesRemain cpu) - 4"
        unfolding r1 using sint_sub_pos[OF pos, of 4] by simp
      moreover have "0 < sint (cyclesRemain cpu)" using pos by (simp add: word_sless_alt)
      moreover have "sint (cyclesRemain c1) \<le> 0" using False by (simp add: word_sless_alt)
      ultimately show ?thesis by simp
    qed
    show ?thesis using e a3 bd by simp
  qed
qed

text \<open>
  C10. The claim says that \<open>cyclesRun\<close> never decreases, for every \<open>n\<close>. \<open>cyclesRun\<close> is a
  Go \<open>int\<close>, and \<open>cyclesRun += cycles\<close> wraps around. On the machine of
  \<open>TestMOVEQInstruction\<close>, with no interrupt pending, every pass charges 4 cycles; with the
  budget \<open>n = 2^63 - 1\<close> the loop stops when \<open>cyclesRemain\<close> is \<open>-1\<close>, and \<open>cyclesRun\<close>,
  which \<open>Execute\<close> set to 0, is then \<open>2^63\<close>, which as a 64-bit \<open>int\<close> is \<open>-2^63\<close>: the
  value \<open>Execute\<close> returns is negative.
\<close>

theorem Execute_cyclesRun_wraps:
  "(case Execute 0x7FFFFFFFFFFFFFFF moveqCPU of
      Inl e \<Rightarrow> False
    | Inr (r, cpu') \<Rightarrow> r = 0x8000000000000000 \<and> cyclesRun cpu' = r \<and> r <s 0)"
proof -
  let ?n = "0x7FFFFFFFFFFFFFFF :: gint"
  let ?c0 = "Execute_start ?n moveqCPU"
  have m0: "memory ?c0 \<noteq> None" and i0: "irqLevel ?c0 = 0" and s0: "\<not> stopped ?c0"
    and h0: "\<not> halted ?c0" and r0: "cyclesRun ?c0 = 0" and e0: "cyclesRemain ?c0 = ?n"
    by (simp_all add: Execute_start_def moveqCPU_eq NewCPU_def)
  from loop_irq0[OF m0 i0 s0 h0] obtain c' where
    l: "Execute_loop ?c0 = Inr c'" "cyclesRemain c' AND 3 = cyclesRemain ?c0 AND 3"
      "0 <s cyclesRemain ?c0 \<longrightarrow> - 4 < sint (cyclesRemain c') \<and> sint (cyclesRemain c') \<le> 0"
    by blast
  have "0 <s ?n" by (simp add: word_sless_alt)
  with l(3) e0 have bd: "- 4 < sint (cyclesRemain c')" "sint (cyclesRemain c') \<le> 0" by simp_all
  have "cyclesRemain c' AND 3 = 3" using l(2) e0 by simp
  from small_neg[OF bd this] have rem: "cyclesRemain c' = - 1" .
  from Execute_loop_total[OF m0] l(1) have "Execute_reach ?c0 c'" by auto
  from reach_sum[OF m0 this] r0 e0 have "cyclesRun c' + cyclesRemain c' = ?n" by simp
  with rem have run: "cyclesRun c' = 0x8000000000000000" by simp
  have "Execute ?n moveqCPU = Inr (cyclesRun c', c')"
    using l(1) by (simp add: Execute_def Execute_start_def Let_def moveqCPU_eq NewCPU_def)
  then show ?thesis using run by (simp add: word_sless_alt)
qed

end
